theory Spec2Isabelle
  imports Main
begin

section \<open>The shared OSC transport and its reply correlation\<close>

text \<open>
  The server keeps one TCP port (\<open>globalOSCPort\<close>) and one callback table
  (\<open>globalOSCCallbacks\<close>, a JavaScript \<open>Map\<close>) for all \<open>QLabOSCClient\<close> instances.
  A JavaScript \<open>Map\<close> iterates in insertion order, and \<open>set\<close> on a key that is already
  present replaces the value where it stands; the table is therefore an association list.
\<close>

fun js_map_set :: "'k \<Rightarrow> 'v \<Rightarrow> ('k \<times> 'v) list \<Rightarrow> ('k \<times> 'v) list" where
  "js_map_set k v [] = [(k, v)]"
| "js_map_set k v ((k', v') # kvs) =
     (if k' = k then (k, v) # kvs else (k', v') # js_map_set k v kvs)"

definition js_map_has :: "'k \<Rightarrow> ('k \<times> 'v) list \<Rightarrow> bool" where
  "js_map_has k kvs = (k \<in> set (map fst kvs))"

definition js_map_delete :: "'k \<Rightarrow> ('k \<times> 'v) list \<Rightarrow> ('k \<times> 'v) list" where
  "js_map_delete k kvs = filter (\<lambda>kv. fst kv \<noteq> k) kvs"

text \<open>
  A pending call is the promise created by one reply-expecting \<open>sendOSCMessage\<close>. The pair
  of the sending instance and the \<open>callbackId\<close> it drew identifies the call; the table itself
  is keyed by the \<open>callbackId\<close> alone.
\<close>

type_synonym instance_id = nat
type_synonym pending_call = "instance_id \<times> nat"

text \<open>What \<open>handleGlobalOSCMessage\<close> makes of the first argument of a reply.\<close>

datatype parsed_data =
    Null                      \<comment> \<open>status not \<open>ok\<close>, or \<open>data\<close> is \<open>null\<close>\<close>
  | Data string               \<comment> \<open>\<open>jsonData.data\<close> of an \<open>ok\<close> envelope\<close>
  | Raw "string list"         \<comment> \<open>\<open>args.map(arg => arg.value)\<close>: no argument, or not JSON\<close>

datatype envelope =
    Envelope_ok string        \<comment> \<open>status \<open>ok\<close>, with the \<open>data\<close>\<close>
  | Envelope_ok_null          \<comment> \<open>status \<open>ok\<close>, \<open>data\<close> is \<open>null\<close>\<close>
  | Envelope_status string    \<comment> \<open>any other status\<close>
  | Unparsable "string list"  \<comment> \<open>no first argument, or one that is not JSON\<close>

record osc_message =
  address :: string
  envelope :: envelope

datatype settlement =
    Resolved parsed_data      \<comment> \<open>\<open>resolve(result)\<close>\<close>
  | Rejected_qlab             \<comment> \<open>\<open>reject(new Error('QLab returned error'))\<close>\<close>
  | Rejected_timeout          \<comment> \<open>\<open>reject(new Error('OSC message timeout'))\<close>\<close>
  | Rejected_send             \<comment> \<open>\<open>oscPort.send\<close> threw\<close>

record transport =
  globalOSCCallbacks :: "(nat \<times> pending_call) list"
  callbackIdCounter :: "instance_id \<Rightarrow> nat"
  timers :: "pending_call set"
  settled :: "pending_call \<rightharpoonup> settlement"
  errorCount :: nat

definition transport_init :: transport where
  "transport_init =
     \<lparr>globalOSCCallbacks = [], callbackIdCounter = (\<lambda>_. 0), timers = {},
      settled = Map.empty, errorCount = 0\<rparr>"

text \<open>A promise settles once; a later \<open>resolve\<close> or \<open>reject\<close> has no effect.\<close>

definition settle :: "pending_call \<Rightarrow> settlement \<Rightarrow> transport \<Rightarrow> transport" where
  "settle c out t =
     (if settled t c = None then t\<lparr>settled := (settled t)(c \<mapsto> out)\<rparr> else t)"

text \<open>
  \<open>sendOSCMessage(address, args, true)\<close> of instance \<open>i\<close>: draw
  \<open>++this.callbackIdCounter\<close>, arm the 10 second timer, store the callback under the drawn
  number, then write to the port. \<open>sent\<close> is false when \<open>oscPort.send\<close> throws; the promise
  is then rejected, the callback and the timer stay.
\<close>

definition sendOSCMessage_reply :: "instance_id \<Rightarrow> bool \<Rightarrow> transport \<Rightarrow> transport" where
  "sendOSCMessage_reply i sent t =
     (let callbackId = callbackIdCounter t i + 1;
          c = (i, callbackId);
          t1 = t\<lparr>callbackIdCounter := (callbackIdCounter t)(i := callbackId),
                 timers := insert c (timers t),
                 globalOSCCallbacks := js_map_set callbackId c (globalOSCCallbacks t)\<rparr>
      in if sent then t1 else settle c Rejected_send t1)"

text \<open>The timer of call \<open>c\<close> fires (it does so only while armed).\<close>

definition timeout_fires :: "pending_call \<Rightarrow> transport \<Rightarrow> transport" where
  "timeout_fires c t =
     (if c \<in> timers t then
        (let t1 = t\<lparr>timers := timers t - {c}\<rparr>
         in if js_map_has (snd c) (globalOSCCallbacks t1)
            then settle c Rejected_timeout
                   (t1\<lparr>globalOSCCallbacks := js_map_delete (snd c) (globalOSCCallbacks t1),
                       errorCount := errorCount t1 + 1\<rparr>)
            else t1)
      else t)"

definition parse_reply :: "envelope \<Rightarrow> parsed_data" where
  "parse_reply e =
     (case e of
        Envelope_ok d \<Rightarrow> Data d
      | Envelope_ok_null \<Rightarrow> Null
      | Envelope_status s \<Rightarrow> Null
      | Unparsable vs \<Rightarrow> Raw vs)"

text \<open>
  The callback stored by \<open>sendOSCMessage\<close>: it clears the timer of its own call and
  resolves or rejects that call.
\<close>

definition callbackFn :: "pending_call \<Rightarrow> parsed_data \<Rightarrow> transport \<Rightarrow> transport" where
  "callbackFn c parsedData t =
     settle c (if parsedData \<noteq> Null then Resolved parsedData else Rejected_qlab)
       (t\<lparr>timers := timers t - {c}\<rparr>)"

text \<open>
  \<open>handleGlobalOSCMessage\<close>: a message whose address starts with \<open>/reply\<close> goes to the first
  entry of the table; with an empty table it is dropped. Other addresses (updates, the
  heartbeat) never touch the table.
\<close>

definition handleGlobalOSCMessage :: "osc_message \<Rightarrow> transport \<Rightarrow> transport" where
  "handleGlobalOSCMessage m t =
     (if take 6 (address m) = ''/reply'' then
        (case globalOSCCallbacks t of
           [] \<Rightarrow> t
         | (callbackId, c) # _ \<Rightarrow>
             callbackFn c (parse_reply (envelope m))
               (t\<lparr>globalOSCCallbacks := js_map_delete callbackId (globalOSCCallbacks t)\<rparr>))
      else t)"

datatype event =
    Send instance_id bool
  | Message osc_message
  | Timeout pending_call

fun step :: "event \<Rightarrow> transport \<Rightarrow> transport" where
  "step (Send i sent) t = sendOSCMessage_reply i sent t"
| "step (Message m) t = handleGlobalOSCMessage m t"
| "step (Timeout c) t = timeout_fires c t"

fun run :: "event list \<Rightarrow> transport \<Rightarrow> transport" where
  "run [] t = t"
| "run (e # es) t = run es (step e t)"

definition reply_ok :: "string \<Rightarrow> event" where
  "reply_ok d = Message \<lparr>address = ''/reply/version'', envelope = Envelope_ok d\<rparr>"

section \<open>The protocol client (\<open>QLabOSCClient\<close>)\<close>

text \<open>
  A cue object as QLab sends it. A JavaScript property that is missing and one that holds
  the empty string are both falsy for \<open>||\<close> and \<open>!\<close>, which is all the client does
  with these properties, so both are the empty string here. \<open>cues\<close> is \<open>None\<close> when the
  property is not an array.
\<close>

datatype qcue =
  QCue (uniqueID: string) (q_number: string) (q_name: string) (listName: string)
       (displayName: string) (q_type: string) (cues: "qcue list option")

text \<open>
  The value a reply-expecting send resolves with (\<open>jsonData.data\<close>). The elements of
  an array are cue objects; a cue list is a cue object whose \<open>cues\<close> are its members.
\<close>

datatype payload =
    P_undefined               \<comment> \<open>an \<open>ok\<close> envelope without a \<open>data\<close> property\<close>
  | P_scalar bool             \<comment> \<open>a number, string or boolean, with its truthiness\<close>
  | P_object qcue
  | P_array "qcue list"

text \<open>
  What happens to one message on the wire: \<open>oscPort.send\<close> throws, or the message goes
  out and the promise is rejected (timeout after 10 s, or a status other than \<open>ok\<close>), or it
  goes out and a reply arrives. The device is a function from the address to this outcome.
\<close>

datatype response = Send_throws | Rejects | Replies payload

type_synonym qlab = "string \<Rightarrow> response"

text \<open>The normalised cue \<open>{id, number, name, type}\<close>; placeholders have no \<open>id\<close>.\<close>

record cue_info =
  cue_id :: "string option"
  cue_number :: string
  cue_name :: string
  cue_type :: string

record osc_client =
  currentWorkspaceId :: "string option"
  selectedCueCache :: "cue_info option"
  activeCueCache :: "cue_info option"
  nextCueCache :: "cue_info option"
  cacheTimeout :: int
  lastSelectedUpdate :: int
  lastActiveUpdate :: int
  lastNextUpdate :: int
  outbox :: "string list"     \<comment> \<open>addresses handed to \<open>oscPort.send\<close>, oldest first\<close>

definition new_QLabOSCClient :: osc_client where
  "new_QLabOSCClient =
     \<lparr>currentWorkspaceId = None, selectedCueCache = None, activeCueCache = None,
      nextCueCache = None, cacheTimeout = 1000, lastSelectedUpdate = 0,
      lastActiveUpdate = 0, lastNextUpdate = 0, outbox = []\<rparr>"

definition replied :: "response \<Rightarrow> bool" where
  "replied r = (case r of Replies _ \<Rightarrow> True | _ \<Rightarrow> False)"

text \<open>Truthiness of a string property (missing or empty is falsy), and \<open>a || b\<close>.\<close>

definition js_truthy :: "string \<Rightarrow> bool" where
  "js_truthy a = (a \<noteq> [])"

definition js_or :: "string \<Rightarrow> string \<Rightarrow> string" where
  "js_or a b = (if js_truthy a then a else b)"

text \<open>
  \<open>sendOSCMessage(address, args, expectReply)\<close> as its caller sees it after \<open>await\<close>:
  \<open>None\<close> when the promise is rejected. Without \<open>expectReply\<close> the promise resolves
  with \<open>true\<close> as soon as the message is written.
\<close>

definition sendOSCMessage :: "osc_client \<Rightarrow> string \<Rightarrow> bool \<Rightarrow> qlab \<Rightarrow> osc_client \<times> payload option" where
  "sendOSCMessage c addr expectReply net =
     (case net addr of
        Send_throws \<Rightarrow> (c, None)
      | Rejects \<Rightarrow>
          (c\<lparr>outbox := outbox c @ [addr]\<rparr>, if expectReply then None else Some (P_scalar True))
      | Replies p \<Rightarrow>
          (c\<lparr>outbox := outbox c @ [addr]\<rparr>, if expectReply then Some p else Some (P_scalar True)))"

text \<open>The address of a command, scoped to the active workspace when there is one.\<close>

definition workspace_address :: "osc_client \<Rightarrow> string \<Rightarrow> string" where
  "workspace_address c suffix =
     (case currentWorkspaceId c of
        None \<Rightarrow> suffix
      | Some w \<Rightarrow> if w \<noteq> [] then ''/workspace/'' @ w @ suffix else suffix)"

definition setActiveWorkspace :: "osc_client \<Rightarrow> string \<Rightarrow> qlab \<Rightarrow> osc_client \<times> bool" where
  "setActiveWorkspace c workspaceId net =
     (let c0 = c\<lparr>currentWorkspaceId := Some workspaceId\<rparr>
      in if workspaceId \<noteq> [] then
           (case sendOSCMessage c0 (''/workspace/'' @ workspaceId @ ''/connect'') True net of
              (c1, None) \<Rightarrow> (c1, False)
            | (c1, Some _) \<Rightarrow>
                (case sendOSCMessage c1 ''/updates'' False net of
                   (c2, None) \<Rightarrow> (c2, False)
                 | (c2, Some _) \<Rightarrow>
                     (case sendOSCMessage c2 (''/workspace/'' @ workspaceId @ ''/cueLists'') True net of
                        (c3, None) \<Rightarrow> (c3, False)
                      | (c3, Some _) \<Rightarrow> (c3, True))))
         else (c0, True))"

definition no_selection :: cue_info where
  "no_selection =
     \<lparr>cue_id = None, cue_number = ''--'', cue_name = ''No selection'', cue_type = ''unknown''\<rparr>"

definition selected_of :: "qcue \<Rightarrow> cue_info" where
  "selected_of q =
     \<lparr>cue_id = Some (uniqueID q), cue_number = js_or (q_number q) ''--'',
      cue_name = js_or (listName q) (js_or (displayName q) (js_or (q_name q) ''No selection'')),
      cue_type = js_or (q_type q) ''unknown''\<rparr>"

text \<open>
  The \<open>catch\<close> block of \<open>getSelectedCue\<close>, entered at time \<open>now_err\<close> (a second
  \<open>Date.now()\<close>).
\<close>

definition getSelectedCue_catch :: "osc_client \<Rightarrow> int \<Rightarrow> osc_client \<times> cue_info" where
  "getSelectedCue_catch c now_err =
     (case selectedCueCache c of
        Some cached \<Rightarrow>
          if now_err - lastSelectedUpdate c < 10000 then (c, cached) else (c, no_selection)
      | None \<Rightarrow> (c, no_selection))"

text \<open>
  \<open>getSelectedCue\<close>, entered at time \<open>now\<close>. With an \<open>undefined\<close> result and no cue
  found, the argument of the debug log, \<open>JSON.stringify(result).substring(0, 100)\<close>, throws
  and control passes to the \<open>catch\<close> block.
\<close>

definition getSelectedCue :: "osc_client \<Rightarrow> int \<Rightarrow> int \<Rightarrow> qlab \<Rightarrow> osc_client \<times> cue_info" where
  "getSelectedCue c now now_err net =
     (case (if now - lastSelectedUpdate c < cacheTimeout c then selectedCueCache c else None) of
        Some cached \<Rightarrow> (c, cached)
      | None \<Rightarrow>
          (case sendOSCMessage c (workspace_address c ''/cue/selected/valuesForKeys'') True net of
             (c1, None) \<Rightarrow> getSelectedCue_catch c1 now_err
           | (c1, Some result) \<Rightarrow>
               (let selectedCue =
                      (case result of
                         P_array (q # _) \<Rightarrow> Some q
                       | P_array [] \<Rightarrow> None
                       | P_object q \<Rightarrow>
                           if js_truthy (uniqueID q) \<or> js_truthy (q_number q)
                              \<or> js_truthy (q_name q) \<or> js_truthy (listName q)
                           then Some q else None
                       | P_scalar _ \<Rightarrow> None
                       | P_undefined \<Rightarrow> None)
                in case selectedCue of
                     Some q \<Rightarrow>
                       (c1\<lparr>selectedCueCache := Some (selected_of q), lastSelectedUpdate := now\<rparr>,
                        selected_of q)
                   | None \<Rightarrow>
                       if result = P_undefined then getSelectedCue_catch c1 now_err
                       else (c1\<lparr>selectedCueCache := Some no_selection, lastSelectedUpdate := now\<rparr>,
                             no_selection))))"

definition not_available :: cue_info where
  "not_available =
     \<lparr>cue_id = None, cue_number = ''--'', cue_name = ''Not available'', cue_type = ''unknown''\<rparr>"

definition no_active_cue :: cue_info where
  "no_active_cue =
     \<lparr>cue_id = None, cue_number = ''--'', cue_name = ''No active cue'', cue_type = ''unknown''\<rparr>"

definition active_of :: "qcue \<Rightarrow> cue_info" where
  "active_of q =
     \<lparr>cue_id = Some (uniqueID q), cue_number = js_or (q_number q) ''--'',
      cue_name = js_or (listName q) (js_or (q_name q) ''Running Cue''),
      cue_type = js_or (q_type q) ''unknown''\<rparr>"

definition getActiveCue :: "osc_client \<Rightarrow> int \<Rightarrow> qlab \<Rightarrow> osc_client \<times> cue_info" where
  "getActiveCue c now net =
     (case (if now - lastActiveUpdate c < cacheTimeout c then activeCueCache c else None) of
        Some cached \<Rightarrow> (c, cached)
      | None \<Rightarrow>
          (case sendOSCMessage c (workspace_address c ''/runningCues'') True net of
             (c1, None) \<Rightarrow> (c1, not_available)
           | (c1, Some result) \<Rightarrow>
               (let cueData = (case result of P_array (q # _) \<Rightarrow> active_of q | _ \<Rightarrow> no_active_cue)
                in (c1\<lparr>activeCueCache := Some cueData, lastActiveUpdate := now\<rparr>, cueData))))"

text \<open>\<open>Array.prototype.findIndex\<close>; \<open>None\<close> stands for \<open>-1\<close>.\<close>

fun findIndex :: "('a \<Rightarrow> bool) \<Rightarrow> 'a list \<Rightarrow> nat option" where
  "findIndex P [] = None"
| "findIndex P (x # xs) = (if P x then Some 0 else map_option Suc (findIndex P xs))"

definition end_of_list :: cue_info where
  "end_of_list =
     \<lparr>cue_id = None, cue_number = ''--'', cue_name = ''End of list'', cue_type = ''unknown''\<rparr>"

definition no_next_cue :: cue_info where
  "no_next_cue =
     \<lparr>cue_id = None, cue_number = ''--'', cue_name = ''No next cue'', cue_type = ''unknown''\<rparr>"

definition next_of :: "qcue \<Rightarrow> cue_info" where
  "next_of q =
     \<lparr>cue_id = Some (uniqueID q), cue_number = js_or (q_number q) ''--'',
      cue_name = js_or (listName q) (js_or (q_name q) ''Next Cue''),
      cue_type = js_or (q_type q) ''unknown''\<rparr>"

text \<open>
  The search of \<open>getNextCue\<close> in the reply to \<open>/cueLists\<close>: the \<open>cues\<close> of the first cue
  list only, and the entry after the first one whose \<open>uniqueID\<close> is the selected id.
\<close>

definition next_in_lists :: "payload \<Rightarrow> string \<Rightarrow> qcue option" where
  "next_in_lists cueLists selectedId =
     (case cueLists of
        P_array (mainCueList # _) \<Rightarrow>
          (case cues mainCueList of
             Some cs \<Rightarrow>
               (case findIndex (\<lambda>cue. uniqueID cue = selectedId) cs of
                  Some currentIndex \<Rightarrow>
                    if Suc currentIndex < length cs then Some (cs ! Suc currentIndex) else None
                | None \<Rightarrow> None)
           | None \<Rightarrow> None)
      | _ \<Rightarrow> None)"

text \<open>
  Every \<open>uniqueID\<close> in a cue and in the cues nested in it at any depth, and every one in a
  reply.
\<close>

primrec all_ids :: "qcue \<Rightarrow> string list" where
  "all_ids (QCue u n nm l d t cs) =
     u # (case map_option (map all_ids) cs of None \<Rightarrow> [] | Some idss \<Rightarrow> concat idss)"

definition payload_ids :: "payload \<Rightarrow> string list" where
  "payload_ids p =
     (case p of P_array qs \<Rightarrow> concat (map all_ids qs) | P_object q \<Rightarrow> all_ids q | _ \<Rightarrow> [])"

text \<open>
  \<open>getNextCue\<close>, entered at time \<open>now\<close>; its call of \<open>getSelectedCue\<close> reads the clock at
  \<open>now_sel\<close> and, in its \<open>catch\<close> block, at \<open>now_err\<close>. The \<open>catch\<close> block of
  \<open>getNextCue\<close> itself compares with \<open>now\<close>.
\<close>

definition getNextCue :: "osc_client \<Rightarrow> int \<Rightarrow> int \<Rightarrow> int \<Rightarrow> qlab \<Rightarrow> osc_client \<times> cue_info" where
  "getNextCue c now now_sel now_err net =
     (case (if now - lastNextUpdate c < cacheTimeout c then nextCueCache c else None) of
        Some cached \<Rightarrow> (c, cached)
      | None \<Rightarrow>
          (case getSelectedCue c now_sel now_err net of
             (c1, selectedCue) \<Rightarrow>
               (let selectedId = (case cue_id selectedCue of None \<Rightarrow> [] | Some i \<Rightarrow> i)
                in if selectedId = []
                   then (c1\<lparr>nextCueCache := Some no_selection, lastNextUpdate := now\<rparr>,
                         no_selection)
                   else
                     (case sendOSCMessage c1 (workspace_address c1 ''/cueLists'') True net of
                        (c2, None) \<Rightarrow>
                          (case nextCueCache c2 of
                             Some cached \<Rightarrow>
                               if now - lastNextUpdate c2 < 10000 then (c2, cached)
                               else (c2, no_next_cue)
                           | None \<Rightarrow> (c2, no_next_cue))
                      | (c2, Some cueLists) \<Rightarrow>
                          (case next_in_lists cueLists selectedId of
                             Some nextCue \<Rightarrow>
                               (c2\<lparr>nextCueCache := Some (next_of nextCue), lastNextUpdate := now\<rparr>,
                                next_of nextCue)
                           | None \<Rightarrow>
                               (c2\<lparr>nextCueCache := Some end_of_list, lastNextUpdate := now\<rparr>,
                                end_of_list))))))"

text \<open>
  \<open>go\<close>, \<open>stop\<close>, \<open>panic\<close>, \<open>reset\<close>, \<open>next\<close> and \<open>previous\<close> differ in the address
  only: one message without reply, true iff the send did not throw.
\<close>

definition command :: "string \<Rightarrow> osc_client \<Rightarrow> qlab \<Rightarrow> osc_client \<times> bool" where
  "command suffix c net =
     (case sendOSCMessage c (workspace_address c suffix) False net of
        (c1, None) \<Rightarrow> (c1, False)
      | (c1, Some _) \<Rightarrow> (c1, True))"

definition osc_go :: "osc_client \<Rightarrow> qlab \<Rightarrow> osc_client \<times> bool" where
  "osc_go = command ''/go''"

definition osc_stop :: "osc_client \<Rightarrow> qlab \<Rightarrow> osc_client \<times> bool" where
  "osc_stop = command ''/stop''"

definition osc_panic :: "osc_client \<Rightarrow> qlab \<Rightarrow> osc_client \<times> bool" where
  "osc_panic = command ''/panic''"

definition osc_reset :: "osc_client \<Rightarrow> qlab \<Rightarrow> osc_client \<times> bool" where
  "osc_reset = command ''/reset''"

definition osc_next :: "osc_client \<Rightarrow> qlab \<Rightarrow> osc_client \<times> bool" where
  "osc_next = command ''/select/next''"

definition osc_previous :: "osc_client \<Rightarrow> qlab \<Rightarrow> osc_client \<times> bool" where
  "osc_previous = command ''/select/previous''"

definition invalidateCache :: "osc_client \<Rightarrow> osc_client" where
  "invalidateCache c =
     c\<lparr>selectedCueCache := None, activeCueCache := None, nextCueCache := None,
       lastSelectedUpdate := 0, lastActiveUpdate := 0, lastNextUpdate := 0\<rparr>"

section \<open>The caching wrapper (\<open>QLabClientWrapper\<close>)\<close>

record client_wrapper =
  client :: osc_client
  lastSelectedCueId :: "string option"
  lastSelectionTime :: int

definition new_QLabClientWrapper :: client_wrapper where
  "new_QLabClientWrapper =
     \<lparr>client = new_QLabOSCClient, lastSelectedCueId = None, lastSelectionTime = 0\<rparr>"

text \<open>
  The playback commands of the wrapper. After a successful command the source defers
  \<open>updateCueInfo\<close> with \<open>setImmediate\<close>; that later task is not part of the command.
\<close>

definition play :: "client_wrapper \<Rightarrow> qlab \<Rightarrow> client_wrapper \<times> bool" where
  "play w net =
     (case osc_go (invalidateCache (client w)) net of (c1, success) \<Rightarrow> (w\<lparr>client := c1\<rparr>, success))"

definition stop :: "client_wrapper \<Rightarrow> qlab \<Rightarrow> client_wrapper \<times> bool" where
  "stop w net =
     (case osc_stop (invalidateCache (client w)) net of (c1, success) \<Rightarrow> (w\<lparr>client := c1\<rparr>, success))"

definition next_cue :: "client_wrapper \<Rightarrow> qlab \<Rightarrow> client_wrapper \<times> bool" where
  "next_cue w net =
     (case osc_next (invalidateCache (client w)) net of (c1, success) \<Rightarrow> (w\<lparr>client := c1\<rparr>, success))"

definition previous :: "client_wrapper \<Rightarrow> qlab \<Rightarrow> client_wrapper \<times> bool" where
  "previous w net =
     (case osc_previous (invalidateCache (client w)) net of
        (c1, success) \<Rightarrow> (w\<lparr>client := c1\<rparr>, success))"

definition panic :: "client_wrapper \<Rightarrow> qlab \<Rightarrow> client_wrapper \<times> bool" where
  "panic w net = (case osc_panic (client w) net of (c1, success) \<Rightarrow> (w\<lparr>client := c1\<rparr>, success))"

definition reset :: "client_wrapper \<Rightarrow> qlab \<Rightarrow> client_wrapper \<times> bool" where
  "reset w net = (case osc_reset (client w) net of (c1, success) \<Rightarrow> (w\<lparr>client := c1\<rparr>, success))"

definition select_address :: "osc_client \<Rightarrow> string \<Rightarrow> string" where
  "select_address c cueId = workspace_address c (''/select_id/'' @ cueId)"

definition skipToCue :: "client_wrapper \<Rightarrow> string \<Rightarrow> int \<Rightarrow> qlab \<Rightarrow> client_wrapper \<times> bool" where
  "skipToCue w cueId now net =
     (if lastSelectedCueId w = Some cueId \<and> now - lastSelectionTime w < 500 then (w, True)
      else
        (case sendOSCMessage (client w) (select_address (client w) cueId) False net of
           (c1, None) \<Rightarrow> (w\<lparr>client := c1\<rparr>, False)
         | (c1, Some _) \<Rightarrow>
             (w\<lparr>client := c1, lastSelectedCueId := Some cueId, lastSelectionTime := now\<rparr>, True)))"

section \<open>The workspace pool and the session registry\<close>

text \<open>
  A pool entry is the object literal \<open>{client, refCount, clients, instanceInfo}\<close>; the
  wrapper it owns is named by the order of construction. \<open>constructed\<close> counts the
  \<open>QLabClientWrapper\<close> objects built so far, \<open>cleaned\<close> lists those whose \<open>cleanup()\<close>
  has run.
\<close>

record pool_entry =
  pe_client :: nat
  refCount :: int
  clients :: "string set"

record client_data =
  workspaceId :: "string option"

record server =
  workspacePool :: "(string \<times> pool_entry) list"
  clientConnections :: "string \<rightharpoonup> client_data"
  constructed :: nat
  cleaned :: "nat list"

definition server_init :: server where
  "server_init =
     \<lparr>workspacePool = [], clientConnections = Map.empty, constructed = 0, cleaned = []\<rparr>"

definition truthy :: "string option \<Rightarrow> bool" where
  "truthy v = (case v of None \<Rightarrow> False | Some s \<Rightarrow> s \<noteq> [])"

text \<open>
  \<open>getOrCreateWorkspaceConnection\<close> is an \<open>async\<close> function. It looks the workspace up
  and, when there is no entry, constructs the wrapper; then it waits at
  \<open>await client.initialize()\<close>, and other requests run in the meantime. \<open>connects h\<close>
  tells whether \<open>initialize()\<close> of the wrapper built as number \<open>h\<close> finds QLab. After the
  wait the function throws (\<open>None\<close>) if the wrapper did not connect, and otherwise writes a
  new entry into the pool under the workspace id.
\<close>

datatype creation = Pooled pool_entry | Initializing nat

definition getOrCreate_lookup :: "string \<Rightarrow> server \<Rightarrow> server \<times> creation" where
  "getOrCreate_lookup w s =
     (case map_of (workspacePool s) w of
        Some poolEntry \<Rightarrow> (s, Pooled poolEntry)
      | None \<Rightarrow> (s\<lparr>constructed := constructed s + 1\<rparr>, Initializing (constructed s)))"

definition getOrCreate_resume ::
    "string \<Rightarrow> (nat \<Rightarrow> bool) \<Rightarrow> nat \<Rightarrow> server \<Rightarrow> server \<times> pool_entry option" where
  "getOrCreate_resume w connects h s =
     (if \<not> connects h then (s, None)
      else (let poolEntry = \<lparr>pe_client = h, refCount = 0, clients = {}\<rparr>
            in (s\<lparr>workspacePool := js_map_set w poolEntry (workspacePool s)\<rparr>, Some poolEntry)))"

text \<open>The whole call when no other request runs during its wait.\<close>

definition getOrCreateWorkspaceConnection ::
    "string \<Rightarrow> (nat \<Rightarrow> bool) \<Rightarrow> server \<Rightarrow> server \<times> pool_entry option" where
  "getOrCreateWorkspaceConnection w connects s =
     (case getOrCreate_lookup w s of
        (s1, Pooled poolEntry) \<Rightarrow> (s1, Some poolEntry)
      | (s1, Initializing h) \<Rightarrow> getOrCreate_resume w connects h s1)"

definition addClientToWorkspace :: "string \<Rightarrow> string \<Rightarrow> server \<Rightarrow> server" where
  "addClientToWorkspace clientId w s =
     (case map_of (workspacePool s) w of
        Some poolEntry \<Rightarrow>
          s\<lparr>workspacePool :=
              js_map_set w (poolEntry\<lparr>clients := insert clientId (clients poolEntry),
                                       refCount := refCount poolEntry + 1\<rparr>) (workspacePool s)\<rparr>
      | None \<Rightarrow> s)"

definition removeClientFromWorkspace :: "string \<Rightarrow> string \<Rightarrow> server \<Rightarrow> server" where
  "removeClientFromWorkspace clientId w s =
     (case map_of (workspacePool s) w of
        Some poolEntry \<Rightarrow>
          (let e = poolEntry\<lparr>clients := clients poolEntry - {clientId},
                             refCount := refCount poolEntry - 1\<rparr>
           in if refCount e \<le> 0
              then s\<lparr>cleaned := cleaned s @ [pe_client e],
                     workspacePool := js_map_delete w (workspacePool s)\<rparr>
              else s\<lparr>workspacePool := js_map_set w e (workspacePool s)\<rparr>)
      | None \<Rightarrow> s)"

text \<open>
  Attaching a session is \<open>getOrCreateWorkspaceConnection\<close> followed by
  \<open>addClientToWorkspace\<close>, as in the routes \<open>/api/connect/:instanceId\<close> and
  \<open>/api/connect_direct\<close>; detaching it is \<open>removeClientFromWorkspace\<close>. \<open>attach\<close> is
  an attach during which no other request runs.
\<close>

definition attach :: "(nat \<Rightarrow> bool) \<Rightarrow> string \<Rightarrow> string \<Rightarrow> server \<Rightarrow> server" where
  "attach connects w clientId s =
     (case getOrCreateWorkspaceConnection w connects s of
        (s1, None) \<Rightarrow> s1
      | (s1, Some _) \<Rightarrow> addClientToWorkspace clientId w s1)"

text \<open>
  The part of an attach that runs after the wait, and two attaches to one workspace that
  overlap: the request of session \<open>b\<close> arrives while the request of session \<open>a\<close> waits
  for its wrapper to initialize; then \<open>a\<close> resumes and is added, then \<open>b\<close>.
\<close>

definition attach_resume ::
    "(nat \<Rightarrow> bool) \<Rightarrow> string \<Rightarrow> string \<Rightarrow> creation \<Rightarrow> server \<Rightarrow> server" where
  "attach_resume connects w clientId found s =
     (case found of
        Pooled _ \<Rightarrow> addClientToWorkspace clientId w s
      | Initializing h \<Rightarrow>
          (case getOrCreate_resume w connects h s of
             (s1, None) \<Rightarrow> s1
           | (s1, Some _) \<Rightarrow> addClientToWorkspace clientId w s1))"

definition overlapping_attaches ::
    "(nat \<Rightarrow> bool) \<Rightarrow> string \<Rightarrow> string \<Rightarrow> string \<Rightarrow> server \<Rightarrow> server" where
  "overlapping_attaches connects w a b s =
     (case getOrCreate_lookup w s of
        (s1, found_a) \<Rightarrow>
          (case getOrCreate_lookup w s1 of
             (s2, found_b) \<Rightarrow>
               attach_resume connects w b found_b (attach_resume connects w a found_a s2)))"

text \<open>
  The pool part of the route \<open>/api/connect/:instanceId/:workspaceId\<close>: it constructs a
  wrapper on every request, waits for it to initialize, and only then looks at the pool;
  the lookup and the write of a new entry are not separated by a wait.
\<close>

definition connect_workspace_route ::
    "(nat \<Rightarrow> bool) \<Rightarrow> string \<Rightarrow> string \<Rightarrow> server \<Rightarrow> server" where
  "connect_workspace_route connects w clientId s =
     (let h = constructed s; s1 = s\<lparr>constructed := h + 1\<rparr>
      in if \<not> connects h then s1
         else addClientToWorkspace clientId w
                (case map_of (workspacePool s1) w of
                   Some _ \<Rightarrow> s1
                 | None \<Rightarrow>
                     s1\<lparr>workspacePool :=
                          js_map_set w \<lparr>pe_client = h, refCount = 0, clients = {}\<rparr>
                            (workspacePool s1)\<rparr>))"

definition attach_all :: "(nat \<Rightarrow> bool) \<Rightarrow> string \<Rightarrow> string list \<Rightarrow> server \<Rightarrow> server" where
  "attach_all connects w sessions s = fold (attach connects w) sessions s"

definition detach_all :: "string \<Rightarrow> string list \<Rightarrow> server \<Rightarrow> server" where
  "detach_all w sessions s = fold (\<lambda>clientId. removeClientFromWorkspace clientId w) sessions s"

subsection \<open>Socket sessions and the grace period\<close>

definition socket_connection :: "string \<Rightarrow> server \<Rightarrow> server" where
  "socket_connection socketId s =
     s\<lparr>clientConnections := (clientConnections s)(socketId \<mapsto> \<lparr>workspaceId = None\<rparr>)\<rparr>"

text \<open>
  The two timers the \<open>disconnect\<close> handler starts, both with a delay of 30000 ms. The first
  is started only when the session has a workspace; it keeps the \<open>clientData\<close> object it
  read at disconnect.
\<close>

datatype grace_timer =
    Cleanup_abandoned string string
  | Remove_stale string

definition on_disconnect :: "string \<Rightarrow> server \<Rightarrow> grace_timer list" where
  "on_disconnect socketId s =
     (case clientConnections s socketId of
        Some clientData \<Rightarrow>
          (case workspaceId clientData of
             Some w \<Rightarrow>
               if w \<noteq> [] then [Cleanup_abandoned socketId w, Remove_stale socketId]
               else [Remove_stale socketId]
           | None \<Rightarrow> [Remove_stale socketId])
      | None \<Rightarrow> [Remove_stale socketId])"

fun fire :: "grace_timer \<Rightarrow> server \<Rightarrow> server" where
  "fire (Cleanup_abandoned socketId w) s =
     (let stillExists = (clientConnections s socketId \<noteq> None)
      in if \<not> stillExists then removeClientFromWorkspace socketId w s else s)"
| "fire (Remove_stale socketId) s =
     (let stillExists = (clientConnections s socketId \<noteq> None)
      in if stillExists then s\<lparr>clientConnections := (clientConnections s)(socketId := None)\<rparr>
         else s)"

text \<open>
  Timers of equal delay fire in the order they were started. \<open>grace_expires\<close> is the
  disconnect of a session followed, with no event in between, by the expiry of its timers.
\<close>

definition grace_expires :: "string \<Rightarrow> server \<Rightarrow> server" where
  "grace_expires socketId s = fold fire (on_disconnect socketId s) s"

subsection \<open>The route \<open>GET /api/cues\<close>\<close>

text \<open>
  The restoration branch reads the property \<open>refs\<close> of a pool entry. No statement of the
  program assigns that property (entries are created with \<open>client\<close>, \<open>refCount\<close>,
  \<open>clients\<close> and \<open>instanceInfo\<close>), so the read gives \<open>undefined\<close>, and
  \<open>undefined > 0\<close> is false. The other conjunct of the test, \<open>connection.client\<close>, is
  an object and so always truthy. \<open>restore_scan\<close> is the \<open>for\<close> loop over the pool in
  insertion order, up to its \<open>break\<close>.
\<close>

definition refs :: "pool_entry \<Rightarrow> int option" where
  "refs connection = None"

definition js_gt :: "int option \<Rightarrow> int \<Rightarrow> bool" where
  "js_gt a b = (case a of None \<Rightarrow> False | Some x \<Rightarrow> b < x)"

fun restore_scan :: "(string \<times> pool_entry) list \<Rightarrow> string option" where
  "restore_scan [] = None"
| "restore_scan ((w, connection) # rest) =
     (if js_gt (refs connection) 0 then Some w else restore_scan rest)"

definition serve_cues :: "(nat \<Rightarrow> 'c list option) \<Rightarrow> string \<Rightarrow> server \<Rightarrow> 'c list" where
  "serve_cues getAllCues w s =
     (case map_of (workspacePool s) w of
        None \<Rightarrow> []
      | Some poolEntry \<Rightarrow>
          (case getAllCues (pe_client poolEntry) of Some cs \<Rightarrow> cs | None \<Rightarrow> []))"

text \<open>
  \<open>getAllCues h\<close> is what \<open>getAllCues()\<close> of wrapper \<open>h\<close> returns, \<open>None\<close> when it
  throws. The result is the new server state and the \<open>cues\<close> of the JSON response.
\<close>

definition api_cues :: "(nat \<Rightarrow> 'c list option) \<Rightarrow> string \<Rightarrow> server \<Rightarrow> server \<times> 'c list" where
  "api_cues getAllCues clientId s =
     (let attached = (case clientConnections s clientId of
                        None \<Rightarrow> None
                      | Some clientData \<Rightarrow>
                          if truthy (workspaceId clientData) then workspaceId clientData else None)
      in case attached of
           Some w \<Rightarrow> (s, serve_cues getAllCues w s)
         | None \<Rightarrow>
             (case restore_scan (workspacePool s) of
                Some w \<Rightarrow>
                  (let s1 = addClientToWorkspace clientId w
                              (s\<lparr>clientConnections :=
                                   (clientConnections s)(clientId \<mapsto> \<lparr>workspaceId = Some w\<rparr>)\<rparr>)
                   in if truthy (Some w) then (s1, serve_cues getAllCues w s1) else (s1, []))
              | None \<Rightarrow> (s, [])))"

section \<open>Example data\<close>

text \<open>
  A workspace with one cue list holding two cues, a QLab that answers the selected-cue
  query with a given payload and the cue-list query with that list, and a client whose
  per-cue caches were filled at time 1000.
\<close>

definition cue_A :: qcue where
  "cue_A = QCue ''A'' ''1'' '''' ''Overture'' '''' ''Audio'' None"

definition cue_B :: qcue where
  "cue_B = QCue ''B'' ''2'' '''' ''Finale'' '''' ''Audio'' None"

definition main_list :: qcue where
  "main_list = QCue ''L'' '''' '''' ''Main Cue List'' '''' ''Cue List'' (Some [cue_A, cue_B])"

definition qlab_with :: "payload \<Rightarrow> qlab" where
  "qlab_with sel =
     (\<lambda>addr. if addr = ''/cue/selected/valuesForKeys'' then Replies sel
             else if addr = ''/cueLists'' then Replies (P_array [main_list])
             else Replies (P_scalar True))"

text \<open>
  A cue list with a group of two cues in it, a second cue list, and a QLab that answers the
  cue-list query as given.
\<close>

definition cue_C :: qcue where
  "cue_C = QCue ''C'' ''3'' '''' ''Thunder'' '''' ''Audio'' None"

definition cue_D :: qcue where
  "cue_D = QCue ''D'' ''4'' '''' ''Rain'' '''' ''Audio'' None"

definition group_G :: qcue where
  "group_G = QCue ''G'' ''10'' '''' ''Storm'' '''' ''Group'' (Some [cue_C, cue_D])"

definition grouped_list :: qcue where
  "grouped_list = QCue ''L'' '''' '''' ''Main Cue List'' '''' ''Cue List'' (Some [cue_A, group_G])"

definition second_list :: qcue where
  "second_list = QCue ''M'' '''' '''' ''Second Cue List'' '''' ''Cue List'' (Some [cue_C, cue_D])"

definition qlab_lists :: "payload \<Rightarrow> response \<Rightarrow> qlab" where
  "qlab_lists sel cueLists =
     (\<lambda>addr. if addr = ''/cue/selected/valuesForKeys'' then Replies sel
             else if addr = ''/cueLists'' then cueLists
             else Replies (P_scalar True))"

definition cached_client :: osc_client where
  "cached_client =
     new_QLabOSCClient
       \<lparr>selectedCueCache := Some (selected_of cue_A), activeCueCache := Some (active_of cue_A),
        nextCueCache := Some (next_of cue_B), lastSelectedUpdate := 1000,
        lastActiveUpdate := 1000, lastNextUpdate := 1000\<rparr>"

definition cached_wrapper :: client_wrapper where
  "cached_wrapper = new_QLabClientWrapper\<lparr>client := cached_client\<rparr>"

section \<open>Notions used in the proofs\<close>

text \<open>The calls a transport state mentions, and the invariant that each was numbered by
  its own instance's counter.\<close>

definition known :: "transport \<Rightarrow> pending_call set" where
  "known t = snd ` set (globalOSCCallbacks t) \<union> dom (settled t) \<union> timers t"

definition numbered :: "transport \<Rightarrow> bool" where
  "numbered t = (\<forall>c \<in> known t. snd c \<le> callbackIdCounter t (fst c))"

text \<open>The callback table when only instance \<open>i\<close> has calls pending, numbered from
  \<open>a\<close> up to \<open>b\<close> exclusive.\<close>

definition queue :: "instance_id \<Rightarrow> nat \<Rightarrow> nat \<Rightarrow> (nat \<times> pending_call) list" where
  "queue i a b = map (\<lambda>k. (k, (i, k))) [a..<b]"

text \<open>A call that has lost its entry in the callback table and is not yet resolved.\<close>

definition orphaned :: "pending_call \<Rightarrow> transport \<Rightarrow> bool" where
  "orphaned x t =
     (x \<notin> snd ` set (globalOSCCallbacks t) \<and> snd x \<le> callbackIdCounter t (fst x)
      \<and> (settled t x = None \<or> settled t x = Some Rejected_timeout))"

section \<open>Properties of the transport\<close>

subsection \<open>The callback table as a JavaScript map\<close>

lemma js_map_set_subset: "set (js_map_set k v kvs) \<subseteq> insert (k, v) (set kvs)"
  by (induction kvs) (auto split: if_splits)

lemma js_map_delete_subset: "set (js_map_delete k kvs) \<subseteq> set kvs"
  by (auto simp: js_map_delete_def)

lemma js_map_set_in: "(k, v) \<in> set (js_map_set k v kvs)"
  by (induction kvs) auto

lemma js_map_set_has: "js_map_has k (js_map_set k v kvs)"
  unfolding js_map_has_def using js_map_set_in[of k v kvs] by force

lemma known_settle: "known (settle c out t) \<subseteq> insert c (known t)"
  by (auto simp: known_def settle_def)

lemma known_send:
  "known (sendOSCMessage_reply i sent t) \<subseteq> insert (i, callbackIdCounter t i + 1) (known t)"
proof -
  let ?c = "(i, callbackIdCounter t i + 1)"
  let ?t1 = "t\<lparr>callbackIdCounter := (callbackIdCounter t)(i := callbackIdCounter t i + 1),
                 timers := insert ?c (timers t),
                 globalOSCCallbacks := js_map_set (callbackIdCounter t i + 1) ?c (globalOSCCallbacks t)\<rparr>"
  have 1: "known ?t1 \<subseteq> insert ?c (known t)"
    using js_map_set_subset[of "callbackIdCounter t i + 1" ?c "globalOSCCallbacks t"]
    by (auto simp: known_def)
  have 2: "known (settle ?c Rejected_send ?t1) \<subseteq> insert ?c (known ?t1)"
    by (rule known_settle)
  show ?thesis using 1 2 by (auto simp: sendOSCMessage_reply_def Let_def)
qed

lemma known_message: "known (handleGlobalOSCMessage m t) \<subseteq> known t"
proof (cases "globalOSCCallbacks t")
  case Nil
  then show ?thesis by (simp add: handleGlobalOSCMessage_def)
next
  case (Cons kc rest)
  obtain k c where kc: "kc = (k, c)" by (cases kc)
  let ?t1 = "t\<lparr>globalOSCCallbacks := js_map_delete k (globalOSCCallbacks t)\<rparr>"
  have c: "c \<in> known t" using Cons kc by (force simp: known_def)
  have "known (?t1\<lparr>timers := timers ?t1 - {c}\<rparr>) \<subseteq> known t"
    using js_map_delete_subset[of k "globalOSCCallbacks t"] by (auto simp: known_def)
  then have "known (callbackFn c d ?t1) \<subseteq> known t" for d
    unfolding callbackFn_def using known_settle c by blast
  then show ?thesis using Cons kc by (simp add: handleGlobalOSCMessage_def)
qed

lemma known_timeout: "known (timeout_fires c t) \<subseteq> known t"
proof (cases "c \<in> timers t")
  case False
  then show ?thesis by (simp add: timeout_fires_def)
next
  case True
  then have c: "c \<in> known t" by (simp add: known_def)
  let ?t1 = "t\<lparr>timers := timers t - {c}\<rparr>"
  let ?t2 = "?t1\<lparr>globalOSCCallbacks := js_map_delete (snd c) (globalOSCCallbacks ?t1),
                  errorCount := errorCount ?t1 + 1\<rparr>"
  have 1: "known ?t1 \<subseteq> known t" by (auto simp: known_def)
  have "known ?t2 \<subseteq> known t"
    using js_map_delete_subset[of "snd c" "globalOSCCallbacks t"] by (auto simp: known_def)
  then have 2: "known (settle c Rejected_timeout ?t2) \<subseteq> known t"
    using known_settle[of c Rejected_timeout ?t2] c by blast
  show ?thesis
  proof (cases "js_map_has (snd c) (globalOSCCallbacks ?t1)")
    case h: True
    then show ?thesis using True 2 by (simp add: timeout_fires_def Let_def)
  next
    case h: False
    then show ?thesis using True 1 by (simp add: timeout_fires_def Let_def)
  qed
qed

lemma counter_step: "callbackIdCounter t j \<le> callbackIdCounter (step e t) j"
  by (cases e) (auto simp: sendOSCMessage_reply_def Let_def settle_def handleGlobalOSCMessage_def
        callbackFn_def timeout_fires_def split: list.splits)

lemma counter_send: "callbackIdCounter (sendOSCMessage_reply i sent t) i = callbackIdCounter t i + 1"
  by (simp add: sendOSCMessage_reply_def Let_def settle_def)

lemma known_step:
  "c \<in> known (step e t) \<Longrightarrow> c \<notin> known t \<Longrightarrow>
     \<exists>i sent. e = Send i sent \<and> c = (i, callbackIdCounter t i + 1)"
proof (cases e)
  case (Send i sent)
  assume "c \<in> known (step e t)" "c \<notin> known t"
  then show ?thesis using Send known_send[of i sent t] by auto
next
  case (Message m)
  assume "c \<in> known (step e t)" "c \<notin> known t"
  then show ?thesis using Message known_message[of m t] by auto
next
  case (Timeout d)
  assume "c \<in> known (step e t)" "c \<notin> known t"
  then show ?thesis using Timeout known_timeout[of d t] by auto
qed

lemma numbered_step: assumes "numbered t" shows "numbered (step e t)"
  unfolding numbered_def
proof
  fix c assume c: "c \<in> known (step e t)"
  show "snd c \<le> callbackIdCounter (step e t) (fst c)"
  proof (cases "c \<in> known t")
    case True
    then have "snd c \<le> callbackIdCounter t (fst c)" using assms by (simp add: numbered_def)
    then show ?thesis using counter_step[of t "fst c" e] by simp
  next
    case False
    then obtain i sent where e: "e = Send i sent" and "c = (i, callbackIdCounter t i + 1)"
      using c known_step by blast
    then show ?thesis using counter_send[of i sent t] by simp
  qed
qed

lemma numbered_run: "numbered t \<Longrightarrow> numbered (run es t)"
  by (induction es arbitrary: t) (auto intro: numbered_step)

lemma numbered_init: "numbered transport_init"
  by (simp add: numbered_def known_def transport_init_def)

lemma js_map_set_split:
  "\<exists>pre post. js_map_set k v kvs = pre @ (k, v) # post \<and> k \<notin> fst ` set pre
      \<and> set pre \<union> set post \<subseteq> set kvs"
proof (induction kvs)
  case Nil
  show ?case by simp
next
  case (Cons kv kvs)
  obtain k' v' where kv: "kv = (k', v')" by (cases kv)
  show ?case
  proof (cases "k' = k")
    case True
    then have "js_map_set k v (kv # kvs) = [] @ (k, v) # kvs \<and> k \<notin> fst ` set []
        \<and> set [] \<union> set kvs \<subseteq> set (kv # kvs)" using kv by auto
    then show ?thesis by (intro exI)
  next
    case False
    from Cons obtain pre post where s: "js_map_set k v kvs = pre @ (k, v) # post"
      "k \<notin> fst ` set pre" "set pre \<union> set post \<subseteq> set kvs" by blast
    have "js_map_set k v (kv # kvs) = (kv # pre) @ (k, v) # post"
      using False kv s(1) by simp
    moreover have "k \<notin> fst ` set (kv # pre)" using False kv s(2) by auto
    moreover have "set (kv # pre) \<union> set post \<subseteq> set (kv # kvs)" using s(3) by auto
    ultimately show ?thesis by blast
  qed
qed

lemma js_map_set_replace:
  "k \<notin> fst ` set pre \<Longrightarrow> js_map_set k w (pre @ (k, v) # post) = pre @ (k, w) # post"
  by (induction pre) auto

lemma settle_fields:
  "globalOSCCallbacks (settle c out t) = globalOSCCallbacks t"
  "callbackIdCounter (settle c out t) = callbackIdCounter t"
  "timers (settle c out t) = timers t"
  "errorCount (settle c out t) = errorCount t"
  by (simp_all add: settle_def)

lemma settled_settle:
  "settled (settle c out t) x = (if c = x \<and> settled t x = None then Some out else settled t x)"
  by (simp add: settle_def)

lemma orphaned_send: assumes "orphaned x t" shows "orphaned x (sendOSCMessage_reply i sent t)"
proof -
  let ?k = "callbackIdCounter t i + 1"
  have ne: "(i, ?k) \<noteq> x" using assms by (auto simp: orphaned_def)
  have "x \<notin> snd ` set (js_map_set ?k (i, ?k) (globalOSCCallbacks t))"
    using js_map_set_subset[of ?k "(i, ?k)" "globalOSCCallbacks t"] ne assms
    by (auto simp: orphaned_def)
  then show ?thesis using assms ne
    by (auto simp: orphaned_def sendOSCMessage_reply_def Let_def settled_settle settle_fields)
qed

lemma orphaned_message: assumes "orphaned x t" shows "orphaned x (handleGlobalOSCMessage m t)"
proof (cases "globalOSCCallbacks t")
  case Nil
  then show ?thesis using assms by (simp add: handleGlobalOSCMessage_def)
next
  case (Cons kc rest)
  obtain k c where kc: "kc = (k, c)" by (cases kc)
  have ne: "c \<noteq> x" using assms Cons kc by (force simp: orphaned_def)
  have "x \<notin> snd ` set (js_map_delete k (globalOSCCallbacks t))"
    using js_map_delete_subset[of k "globalOSCCallbacks t"] assms by (auto simp: orphaned_def)
  then show ?thesis using assms ne Cons kc
    by (auto simp: orphaned_def handleGlobalOSCMessage_def callbackFn_def settled_settle settle_fields)
qed

lemma orphaned_timeout: assumes "orphaned x t" shows "orphaned x (timeout_fires c t)"
proof -
  have "x \<notin> snd ` set (js_map_delete (snd c) (globalOSCCallbacks t))"
    using js_map_delete_subset[of "snd c" "globalOSCCallbacks t"] assms by (auto simp: orphaned_def)
  then show ?thesis using assms
    by (auto simp: orphaned_def timeout_fires_def Let_def settled_settle settle_fields)
qed

lemma orphaned_step: "orphaned x t \<Longrightarrow> orphaned x (step e t)"
  by (cases e) (simp_all add: orphaned_send orphaned_message orphaned_timeout)

lemma orphaned_run: "orphaned x t \<Longrightarrow> orphaned x (run es t)"
  by (induction es arbitrary: t) (auto intro: orphaned_step)

lemma send_sent_fields:
  "globalOSCCallbacks (sendOSCMessage_reply i True t) =
     js_map_set (callbackIdCounter t i + 1) (i, callbackIdCounter t i + 1) (globalOSCCallbacks t)"
  "callbackIdCounter (sendOSCMessage_reply i True t) =
     (callbackIdCounter t)(i := callbackIdCounter t i + 1)"
  "timers (sendOSCMessage_reply i True t) = insert (i, callbackIdCounter t i + 1) (timers t)"
  "settled (sendOSCMessage_reply i True t) = settled t"
  by (simp_all add: sendOSCMessage_reply_def Let_def)


subsection \<open>One instance: replies are matched first-in first-out\<close>

text \<open>
  While one instance alone has calls pending their keys are distinct, and \<open>n\<close> sends
  followed by \<open>n\<close> \<open>ok\<close> replies resolve the calls in the order they were sent: the
  call numbered \<open>j + 1\<close> gets the data of reply \<open>j\<close>.
\<close>

lemma js_map_set_fresh: "k \<notin> fst ` set kvs \<Longrightarrow> js_map_set k v kvs = kvs @ [(k, v)]"
  by (induction kvs) auto

lemma queue_snoc: "a \<le> b \<Longrightarrow> js_map_set b (i, b) (queue i a b) = queue i a (Suc b)"
  by (simp add: queue_def js_map_set_fresh image_iff)

lemma queue_head: "a < b \<Longrightarrow> queue i a b = (a, (i, a)) # queue i (Suc a) b"
  by (simp add: queue_def upt_conv_Cons)

lemma queue_delete: "js_map_delete a (queue i (Suc a) b) = queue i (Suc a) b"
  by (simp add: queue_def js_map_delete_def filter_map o_def)

lemma sends_queue:
  "globalOSCCallbacks t = queue i a (Suc (callbackIdCounter t i)) \<Longrightarrow> a \<le> Suc (callbackIdCounter t i) \<Longrightarrow>
     globalOSCCallbacks (run (replicate n (Send i True)) t) = queue i a (Suc (callbackIdCounter t i + n))
     \<and> settled (run (replicate n (Send i True)) t) = settled t"
proof (induction n arbitrary: t)
  case 0
  then show ?case by simp
next
  case (Suc n)
  let ?t = "sendOSCMessage_reply i True t"
  have c: "callbackIdCounter ?t i = Suc (callbackIdCounter t i)" by (simp add: send_sent_fields)
  have q: "globalOSCCallbacks ?t = queue i a (Suc (callbackIdCounter ?t i))"
    using Suc.prems queue_snoc[of a "Suc (callbackIdCounter t i)" i]
    by (simp add: send_sent_fields)
  have le: "a \<le> Suc (callbackIdCounter ?t i)" using Suc.prems(2) c by simp
  show ?case using Suc.IH[OF q le] c by (simp add: send_sent_fields)
qed

lemma settled_step_keeps: "settled t c = Some x \<Longrightarrow> settled (step e t) c = Some x"
  by (cases e)
    (auto simp: sendOSCMessage_reply_def Let_def settled_settle handleGlobalOSCMessage_def
      callbackFn_def timeout_fires_def settle_fields split: list.splits)

lemma settled_run_keeps: "settled t c = Some x \<Longrightarrow> settled (run es t) c = Some x"
  by (induction es arbitrary: t) (auto intro: settled_step_keeps)

lemma replies_queue:
  "globalOSCCallbacks t = queue i a (a + length ds) \<Longrightarrow>
   (\<forall>k. a \<le> k \<and> k < a + length ds \<longrightarrow> settled t (i, k) = None) \<Longrightarrow> j < length ds \<Longrightarrow>
     settled (run (map reply_ok ds) t) (i, a + j) = Some (Resolved (Data (ds ! j)))"
proof (induction ds arbitrary: t a j)
  case Nil
  then show ?case by simp
next
  case (Cons d ds)
  let ?t = "step (reply_ok d) t"
  have head: "globalOSCCallbacks t = (a, (i, a)) # queue i (Suc a) (a + length (d # ds))"
    using Cons.prems(1) queue_head[of a "a + length (d # ds)" i] by simp
  have none: "settled t (i, a) = None" using Cons.prems(2) by simp
  have cb: "globalOSCCallbacks ?t = queue i (Suc a) (Suc a + length ds)"
    using head queue_delete[of a i "a + length (d # ds)"]
    by (simp add: reply_ok_def handleGlobalOSCMessage_def callbackFn_def settle_fields
        js_map_delete_def)
  have st: "settled ?t = (settled t)((i, a) \<mapsto> Resolved (Data d))"
    using head none
    by (simp add: reply_ok_def handleGlobalOSCMessage_def callbackFn_def settle_def
        parse_reply_def)
  show ?case
  proof (cases j)
    case 0
    have "settled ?t (i, a) = Some (Resolved (Data d))" using st by simp
    then show ?thesis using 0 settled_run_keeps[of ?t "(i, a)" _ "map reply_ok ds"] by simp
  next
    case (Suc j')
    have rest: "\<forall>k. Suc a \<le> k \<and> k < Suc a + length ds \<longrightarrow> settled ?t (i, k) = None"
      using Cons.prems(2) st by simp
    have "j' < length ds" using Cons.prems(3) Suc by simp
    then show ?thesis using Cons.IH[OF cb rest, of j'] Suc by simp
  qed
qed

lemma single_instance_fifo:
  assumes "length ds = n" and "j < n"
  shows "settled (run (replicate n (Send i True) @ map reply_ok ds) transport_init) (i, Suc j)
           = Some (Resolved (Data (ds ! j)))"
proof -
  let ?t = "run (replicate n (Send i True)) transport_init"
  have app: "run (xs @ ys) t = run ys (run xs t)" for xs ys t
    by (induction xs arbitrary: t) auto
  have q0: "globalOSCCallbacks transport_init = queue i 1 (Suc (callbackIdCounter transport_init i))"
    by (simp add: transport_init_def queue_def)
  have le: "1 \<le> Suc (callbackIdCounter transport_init i)" by simp
  have q: "globalOSCCallbacks ?t = queue i 1 (1 + length ds)" and s: "settled ?t = Map.empty"
    using sends_queue[OF q0 le, of n] assms(1) by (simp_all add: transport_init_def)
  have none: "\<forall>k. 1 \<le> k \<and> k < 1 + length ds \<longrightarrow> settled ?t (i, k) = None" using s by simp
  show ?thesis
    using replies_queue[OF q none, of j] assms by (simp add: app)
qed

subsection \<open>Two instances draw the same callback id\<close>

text \<open>
  Claim C9. Each \<open>QLabOSCClient\<close> numbers its calls with its own counter, which starts
  at zero, and all instances store their callbacks in the one table keyed by that number.
  So in every reachable state in which two instances \<open>a\<close> and \<open>b\<close> have equal counters
  (two fresh instances, for one), a reply-expecting send of \<open>a\<close> followed by one of
  \<open>b\<close> puts \<open>b\<close>'s callback where \<open>a\<close>'s stood, under the same key and at the same
  place of the table. From then on the call of \<open>a\<close> is in no entry of the table: whatever
  sends, messages and timeouts follow, no inbound reply resolves or rejects it, and the only
  settlement it can get is the rejection by its own timeout. It gets that rejection if its
  timer is the next thing to fire.
\<close>

theorem callback_id_collision:
  assumes reach: "t = run es transport_init"
    and ab: "a \<noteq> b"
    and same: "callbackIdCounter t a = callbackIdCounter t b"
  shows "let k = callbackIdCounter t a + 1;
             t1 = sendOSCMessage_reply a True t;
             t2 = sendOSCMessage_reply b True t1
         in (\<exists>pre post. globalOSCCallbacks t1 = pre @ (k, (a, k)) # post
                      \<and> globalOSCCallbacks t2 = pre @ (k, (b, k)) # post)
          \<and> (a, k) \<notin> snd ` set (globalOSCCallbacks t2)
          \<and> (\<forall>es'. settled (run es' t2) (a, k) = None
                  \<or> settled (run es' t2) (a, k) = Some Rejected_timeout)
          \<and> settled (timeout_fires (a, k) t2) (a, k) = Some Rejected_timeout"
proof -
  let ?k = "callbackIdCounter t a + 1"
  let ?t1 = "sendOSCMessage_reply a True t"
  let ?t2 = "sendOSCMessage_reply b True ?t1"
  have num: "numbered t" using reach numbered_run[OF numbered_init] by simp
  have fresh: "(a, ?k) \<notin> known t"
  proof
    assume "(a, ?k) \<in> known t"
    then have "snd (a, ?k) \<le> callbackIdCounter t (fst (a, ?k))"
      using num unfolding numbered_def by blast
    then show False by simp
  qed
  have cb1: "globalOSCCallbacks ?t1 = js_map_set ?k (a, ?k) (globalOSCCallbacks t)"
    by (simp only: send_sent_fields)
  have ctr1: "callbackIdCounter ?t1 b + 1 = ?k"
    using ab same by (simp add: send_sent_fields)
  have cb2: "globalOSCCallbacks ?t2 = js_map_set ?k (b, ?k) (globalOSCCallbacks ?t1)"
    using ctr1 send_sent_fields(1)[of b ?t1] by simp
  obtain pre post where split:
    "js_map_set ?k (a, ?k) (globalOSCCallbacks t) = pre @ (?k, (a, ?k)) # post"
    "?k \<notin> fst ` set pre" "set pre \<union> set post \<subseteq> set (globalOSCCallbacks t)"
    using js_map_set_split[of ?k "(a, ?k)" "globalOSCCallbacks t"] by blast
  have g1: "globalOSCCallbacks ?t1 = pre @ (?k, (a, ?k)) # post" using cb1 split(1) by simp
  have g2: "globalOSCCallbacks ?t2 = pre @ (?k, (b, ?k)) # post"
    using cb2 g1 js_map_set_replace[OF split(2)] by simp
  have notin: "(a, ?k) \<notin> snd ` set (globalOSCCallbacks ?t2)"
  proof
    assume "(a, ?k) \<in> snd ` set (globalOSCCallbacks ?t2)"
    then have "(a, ?k) \<in> snd ` set (pre @ (?k, (b, ?k)) # post)" using g2 by simp
    then have "(a, ?k) \<in> snd ` (set pre \<union> set post)" using ab by auto
    then have "(a, ?k) \<in> snd ` set (globalOSCCallbacks t)" using split(3) by blast
    then show False using fresh by (simp add: known_def)
  qed
  have "settled t (a, ?k) = None" using fresh by (auto simp: known_def)
  then have s2: "settled ?t2 (a, ?k) = None" by (simp only: send_sent_fields)
  have c2: "?k \<le> callbackIdCounter ?t2 a"
    using ab by (simp add: send_sent_fields)
  have orph: "orphaned (a, ?k) ?t2" using notin s2 c2 by (simp add: orphaned_def)
  have never: "\<forall>es'. settled (run es' ?t2) (a, ?k) = None
                  \<or> settled (run es' ?t2) (a, ?k) = Some Rejected_timeout"
    using orphaned_run[OF orph] by (simp add: orphaned_def)
  have tm: "(a, ?k) \<in> timers ?t2"
    by (simp add: send_sent_fields)
  have has: "js_map_has ?k (globalOSCCallbacks ?t2)" by (simp only: cb2 js_map_set_has)
  have fire: "settled (timeout_fires (a, ?k) ?t2) (a, ?k) = Some Rejected_timeout"
    using tm has s2 by (simp add: timeout_fires_def Let_def settle_def)
  have ex: "\<exists>pre post. globalOSCCallbacks ?t1 = pre @ (?k, (a, ?k)) # post
                      \<and> globalOSCCallbacks ?t2 = pre @ (?k, (b, ?k)) # post"
    using g1 g2 by blast
  show ?thesis
    unfolding Let_def using ex notin never fire by (intro conjI)
qed

theorem callback_id_collision_witness:
  "transport_init = run [] transport_init \<and> (0::nat) \<noteq> 1
   \<and> callbackIdCounter transport_init 0 = callbackIdCounter transport_init 1
   \<and> (let k = callbackIdCounter transport_init 0 + 1;
             t1 = sendOSCMessage_reply 0 True transport_init;
             t2 = sendOSCMessage_reply 1 True t1
         in (\<exists>pre post. globalOSCCallbacks t1 = pre @ (k, (0, k)) # post
                      \<and> globalOSCCallbacks t2 = pre @ (k, (1, k)) # post)
          \<and> (0, k) \<notin> snd ` set (globalOSCCallbacks t2)
          \<and> (\<forall>es'. settled (run es' t2) (0, k) = None
                  \<or> settled (run es' t2) (0, k) = Some Rejected_timeout)
          \<and> settled (timeout_fires (0, k) t2) (0, k) = Some Rejected_timeout)"
proof -
  have h1: "transport_init = run [] transport_init" by simp
  have h2: "(0::nat) \<noteq> 1" by simp
  have h3: "callbackIdCounter transport_init 0 = callbackIdCounter transport_init 1"
    by (simp add: transport_init_def)
  show ?thesis using h1 h2 h3 callback_id_collision[OF h1 h2 h3] by (intro conjI)
qed


subsection \<open>Replies are not matched first-in first-out across instances\<close>

lemma two_sends:
  "run [Send 0 True, Send 1 True] transport_init =
     \<lparr>globalOSCCallbacks = [(1, (1, 1))], callbackIdCounter = (\<lambda>_. 0)(0 := 1, 1 := 1),
      timers = {(1, 1), (0, 1)}, settled = Map.empty, errorCount = 0\<rparr>"
  by (simp add: transport_init_def sendOSCMessage_reply_def Let_def)


text \<open>
  Claim C1 asks that each reply settles the call registered earliest among those pending,
  also when the sends come from different instances. For the sends of one instance this
  holds (lemma \<open>single_instance_fifo\<close>). The run below has two instances, one
  reply-expecting send each (instance 0 first), then two \<open>ok\<close> replies. Both sends
  draw the key 1. The first reply resolves the call of instance 1, the later one; the
  second reply finds the table empty and is dropped; the call of instance 0 stays unsettled
  with its timer armed.
\<close>

theorem fifo_broken_across_instances:
  "let t = run [Send 0 True, Send 1 True, reply_ok ''A'', reply_ok ''B''] transport_init
   in settled t (0, 1) = None \<and> settled t (1, 1) = Some (Resolved (Data ''A''))
    \<and> globalOSCCallbacks t = [] \<and> timers t = {(0, 1)}"
  by (simp add: Let_def transport_init_def sendOSCMessage_reply_def reply_ok_def
      handleGlobalOSCMessage_def callbackFn_def js_map_delete_def settle_def parse_reply_def)

section \<open>Properties of the workspace pool\<close>

lemma map_of_js_map_set:
  "map_of (js_map_set k v kvs) k' = (if k' = k then Some v else map_of kvs k')"
  by (induction kvs) auto

lemma map_of_js_map_delete:
  "map_of (js_map_delete k kvs) k' = (if k' = k then None else map_of kvs k')"
  by (induction kvs) (auto simp: js_map_delete_def)

lemma attach_present:
  assumes "map_of (workspacePool s) w = Some e"
  shows "map_of (workspacePool (attach connects w c s)) w =
           Some (e\<lparr>clients := insert c (clients e), refCount := refCount e + 1\<rparr>)"
    and "constructed (attach connects w c s) = constructed s"
    and "cleaned (attach connects w c s) = cleaned s"
  using assms
  by (simp_all add: attach_def getOrCreateWorkspaceConnection_def getOrCreate_lookup_def
      addClientToWorkspace_def map_of_js_map_set)

lemma attach_absent:
  assumes "map_of (workspacePool s) w = None" and "connects (constructed s)"
  shows "map_of (workspacePool (attach connects w c s)) w =
           Some \<lparr>pe_client = constructed s, refCount = 1, clients = {c}\<rparr>"
    and "constructed (attach connects w c s) = constructed s + 1"
    and "cleaned (attach connects w c s) = cleaned s"
  using assms
  by (simp_all add: attach_def getOrCreateWorkspaceConnection_def getOrCreate_lookup_def
      getOrCreate_resume_def addClientToWorkspace_def map_of_js_map_set Let_def)

lemma attach_all_present:
  "map_of (workspacePool s) w = Some e \<Longrightarrow>
     map_of (workspacePool (attach_all connects w ss s)) w =
       Some (e\<lparr>clients := clients e \<union> set ss, refCount := refCount e + int (length ss)\<rparr>)
     \<and> constructed (attach_all connects w ss s) = constructed s
     \<and> cleaned (attach_all connects w ss s) = cleaned s"
proof (induction ss arbitrary: s e)
  case Nil
  then show ?case by (simp add: attach_all_def)
next
  case (Cons c ss)
  let ?e = "e\<lparr>clients := insert c (clients e), refCount := refCount e + 1\<rparr>"
  let ?s = "attach connects w c s"
  have 1: "map_of (workspacePool ?s) w = Some ?e" using attach_present(1)[OF Cons.prems] .
  have 2: "attach_all connects w (c # ss) s = attach_all connects w ss ?s"
    by (simp add: attach_all_def)
  have 3: "insert c (clients e) \<union> set ss = clients e \<union> set (c # ss)" by auto
  have 4: "refCount e + 1 + int (length ss) = refCount e + int (length (c # ss))" by simp
  have 5: "?e\<lparr>clients := clients ?e \<union> set ss, refCount := refCount ?e + int (length ss)\<rparr>
           = e\<lparr>clients := clients e \<union> set (c # ss),
               refCount := refCount e + int (length (c # ss))\<rparr>"
    using 3 4 by simp
  show ?case
    using Cons.IH[OF 1] attach_present(2,3)[OF Cons.prems, of connects c]
    unfolding 2 5 by simp
qed

lemma detach_alive:
  assumes "map_of (workspacePool s) w = Some e" and "1 < refCount e"
  shows "map_of (workspacePool (removeClientFromWorkspace c w s)) w =
           Some (e\<lparr>clients := clients e - {c}, refCount := refCount e - 1\<rparr>)"
    and "constructed (removeClientFromWorkspace c w s) = constructed s"
    and "cleaned (removeClientFromWorkspace c w s) = cleaned s"
  using assms
  by (simp_all add: removeClientFromWorkspace_def Let_def map_of_js_map_set)

lemma detach_last:
  assumes "map_of (workspacePool s) w = Some e" and "refCount e \<le> 1"
  shows "map_of (workspacePool (removeClientFromWorkspace c w s)) w = None"
    and "constructed (removeClientFromWorkspace c w s) = constructed s"
    and "cleaned (removeClientFromWorkspace c w s) = cleaned s @ [pe_client e]"
  using assms
  by (simp_all add: removeClientFromWorkspace_def Let_def map_of_js_map_delete)

lemma detach_all_alive:
  "map_of (workspacePool s) w = Some e \<Longrightarrow> int (length ds) < refCount e \<Longrightarrow>
     map_of (workspacePool (detach_all w ds s)) w =
       Some (e\<lparr>clients := clients e - set ds, refCount := refCount e - int (length ds)\<rparr>)
     \<and> constructed (detach_all w ds s) = constructed s
     \<and> cleaned (detach_all w ds s) = cleaned s"
proof (induction ds arbitrary: s e)
  case Nil
  then show ?case by (simp add: detach_all_def)
next
  case (Cons d ds)
  let ?e = "e\<lparr>clients := clients e - {d}, refCount := refCount e - 1\<rparr>"
  let ?s = "removeClientFromWorkspace d w s"
  have gt: "1 < refCount e" using Cons.prems(2) by simp
  have 1: "map_of (workspacePool ?s) w = Some ?e" using detach_alive(1)[OF Cons.prems(1) gt] .
  have 2: "int (length ds) < refCount ?e" using Cons.prems(2) by simp
  have 3: "detach_all w (d # ds) s = detach_all w ds ?s" by (simp add: detach_all_def)
  have 4: "clients e - {d} - set ds = clients e - set (d # ds)" by auto
  show ?case
    using Cons.IH[OF 1 2] detach_alive(2,3)[OF Cons.prems(1) gt, of d] 4
    by (simp add: 3)
qed

lemma detach_all_snoc: "detach_all w (ds @ [d]) s = removeClientFromWorkspace d w (detach_all w ds s)"
  by (simp add: detach_all_def)

lemma detach_all_every:
  assumes e: "map_of (workspacePool s) w = Some e"
    and n: "int (length ds) = refCount e" and ne: "ds \<noteq> []"
  shows "map_of (workspacePool (detach_all w ds s)) w = None
     \<and> constructed (detach_all w ds s) = constructed s
     \<and> cleaned (detach_all w ds s) = cleaned s @ [pe_client e]"
proof -
  obtain ds' d where ds: "ds = ds' @ [d]" using ne by (metis rev_exhaust)
  let ?s = "detach_all w ds' s"
  let ?e = "e\<lparr>clients := clients e - set ds', refCount := refCount e - int (length ds')\<rparr>"
  have lt: "int (length ds') < refCount e" using n ds by simp
  have alive: "map_of (workspacePool ?s) w = Some ?e" "constructed ?s = constructed s"
    "cleaned ?s = cleaned s"
    using detach_all_alive[OF e lt] by simp_all
  have one: "refCount ?e \<le> 1" using n ds by simp
  show ?thesis
    using detach_last[OF alive(1) one, of d] alive(2,3)
    by (simp add: ds detach_all_snoc)
qed

text \<open>
  Attaches that do not overlap. Take a workspace id that has no pool entry and whose first
  wrapper connects to QLab, and attach \<open>K \<ge> 1\<close> sessions to it one after the other.
  Exactly one \<open>QLabClientWrapper\<close> is constructed, by the first attach, and the pool entry
  holds it with a reference count of \<open>K\<close>. Detaching fewer than \<open>K\<close> sessions leaves the
  entry in the pool with the same wrapper and runs no \<open>cleanup()\<close>; detaching \<open>K\<close>
  removes the entry from the pool and runs \<open>cleanup()\<close> of that wrapper.
\<close>

lemma sequential_pool_refcounting:
  assumes absent: "map_of (workspacePool s) w = None"
    and reach: "connects (constructed s)"
    and K: "sessions \<noteq> []"
  shows "let s1 = attach_all connects w sessions s; K = length sessions
         in constructed s1 = constructed s + 1
          \<and> cleaned s1 = cleaned s
          \<and> map_of (workspacePool s1) w =
               Some \<lparr>pe_client = constructed s, refCount = int K, clients = set sessions\<rparr>
          \<and> (\<forall>ds. length ds < K \<longrightarrow>
                 (\<exists>e. map_of (workspacePool (detach_all w ds s1)) w = Some e
                     \<and> pe_client e = constructed s \<and> refCount e = int K - int (length ds))
                 \<and> constructed (detach_all w ds s1) = constructed s + 1
                 \<and> cleaned (detach_all w ds s1) = cleaned s)
          \<and> (\<forall>ds. length ds = K \<longrightarrow>
                 map_of (workspacePool (detach_all w ds s1)) w = None
                 \<and> constructed (detach_all w ds s1) = constructed s + 1
                 \<and> cleaned (detach_all w ds s1) = cleaned s @ [constructed s])"
proof -
  obtain c cs where ss: "sessions = c # cs" using K by (cases sessions) auto
  let ?s0 = "attach connects w c s"
  let ?e0 = "\<lparr>pe_client = constructed s, refCount = 1, clients = {c}\<rparr>"
  let ?s1 = "attach_all connects w sessions s"
  let ?e1 = "\<lparr>pe_client = constructed s, refCount = int (length sessions), clients = set sessions\<rparr>"
  have first: "map_of (workspacePool ?s0) w = Some ?e0" "constructed ?s0 = constructed s + 1"
    "cleaned ?s0 = cleaned s"
    using attach_absent[of s w connects c] absent reach by simp_all
  have unfold: "attach_all connects w (c # cs) s = attach_all connects w cs ?s0"
    by (simp add: attach_all_def)
  have rest: "map_of (workspacePool (attach_all connects w cs ?s0)) w =
       Some (?e0\<lparr>clients := clients ?e0 \<union> set cs, refCount := refCount ?e0 + int (length cs)\<rparr>)
     \<and> constructed (attach_all connects w cs ?s0) = constructed ?s0
     \<and> cleaned (attach_all connects w cs ?s0) = cleaned ?s0"
    using attach_all_present[OF first(1), of connects cs] .
  have e1: "map_of (workspacePool ?s1) w = Some ?e1"
    and c1: "constructed ?s1 = constructed s + 1" and k1: "cleaned ?s1 = cleaned s"
    unfolding ss unfold using rest first(2,3) by simp_all
  have alive: "(\<exists>e. map_of (workspacePool (detach_all w ds ?s1)) w = Some e
                     \<and> pe_client e = constructed s
                     \<and> refCount e = int (length sessions) - int (length ds))
                 \<and> constructed (detach_all w ds ?s1) = constructed s + 1
                 \<and> cleaned (detach_all w ds ?s1) = cleaned s"
    if "length ds < length sessions" for ds
    using detach_all_alive[OF e1, of ds] that c1 k1 by simp
  have gone: "map_of (workspacePool (detach_all w ds ?s1)) w = None
                 \<and> constructed (detach_all w ds ?s1) = constructed s + 1
                 \<and> cleaned (detach_all w ds ?s1) = cleaned s @ [constructed s]"
    if "length ds = length sessions" for ds
  proof -
    have "ds \<noteq> []" using that K by auto
    then show ?thesis using detach_all_every[OF e1, of ds] that c1 k1 by simp
  qed
  show ?thesis unfolding Let_def using e1 c1 k1 alive gone by blast
qed

lemma sequential_pool_refcounting_example:
  "map_of (workspacePool server_init) ''ws'' = None
   \<and> (\<lambda>h. h = 0) (constructed server_init)
   \<and> [''a'', ''b'', ''c''] \<noteq> []
   \<and> constructed (attach_all (\<lambda>h. h = 0) ''ws'' [''a'', ''b'', ''c''] server_init) = 1
   \<and> map_of (workspacePool (attach_all (\<lambda>h. h = 0) ''ws'' [''a'', ''b'', ''c''] server_init)) ''ws''
       = Some \<lparr>pe_client = 0, refCount = 3, clients = {''a'', ''b'', ''c''}\<rparr>
   \<and> (\<exists>e. map_of (workspacePool (detach_all ''ws'' [''c'', ''a'']
               (attach_all (\<lambda>h. h = 0) ''ws'' [''a'', ''b'', ''c''] server_init))) ''ws'' = Some e
          \<and> pe_client e = 0 \<and> refCount e = 1)
   \<and> cleaned (detach_all ''ws'' [''c'', ''a'']
         (attach_all (\<lambda>h. h = 0) ''ws'' [''a'', ''b'', ''c''] server_init)) = []
   \<and> map_of (workspacePool (detach_all ''ws'' [''c'', ''a'', ''b'']
         (attach_all (\<lambda>h. h = 0) ''ws'' [''a'', ''b'', ''c''] server_init))) ''ws'' = None
   \<and> cleaned (detach_all ''ws'' [''c'', ''a'', ''b'']
         (attach_all (\<lambda>h. h = 0) ''ws'' [''a'', ''b'', ''c''] server_init)) = [0]"
proof -
  let ?s1 = "attach_all (\<lambda>h. h = 0) ''ws'' [''a'', ''b'', ''c''] server_init"
  have h1: "map_of (workspacePool server_init) ''ws'' = None" by (simp add: server_init_def)
  have h2: "(\<lambda>h. h = 0) (constructed server_init)" by (simp add: server_init_def)
  have h3: "[''a'', ''b'', ''c''] \<noteq> []" by simp
  note T = sequential_pool_refcounting[of server_init "''ws''" "\<lambda>h. h = 0" "[''a'', ''b'', ''c'']",
      unfolded Let_def, OF h1 h2 h3]
  have c0: "constructed server_init = 0" "cleaned server_init = []" by (simp_all add: server_init_def)
  have a: "constructed ?s1 = 1" using T c0 by simp
  have b: "map_of (workspacePool ?s1) ''ws''
       = Some \<lparr>pe_client = 0, refCount = 3, clients = {''a'', ''b'', ''c''}\<rparr>"
    using T c0 by simp
  have two: "\<forall>ds. length ds < length [''a'', ''b'', ''c''] \<longrightarrow>
                 (\<exists>e. map_of (workspacePool (detach_all ''ws'' ds ?s1)) ''ws'' = Some e
                     \<and> pe_client e = constructed server_init
                     \<and> refCount e = int (length [''a'', ''b'', ''c'']) - int (length ds))
                 \<and> constructed (detach_all ''ws'' ds ?s1) = constructed server_init + 1
                 \<and> cleaned (detach_all ''ws'' ds ?s1) = cleaned server_init"
    using T by blast
  have three: "\<forall>ds. length ds = length [''a'', ''b'', ''c''] \<longrightarrow>
                 map_of (workspacePool (detach_all ''ws'' ds ?s1)) ''ws'' = None
                 \<and> constructed (detach_all ''ws'' ds ?s1) = constructed server_init + 1
                 \<and> cleaned (detach_all ''ws'' ds ?s1) = cleaned server_init @ [constructed server_init]"
    using T by blast
  have c: "(\<exists>e. map_of (workspacePool (detach_all ''ws'' [''c'', ''a''] ?s1)) ''ws'' = Some e
          \<and> pe_client e = 0 \<and> refCount e = 1)
          \<and> cleaned (detach_all ''ws'' [''c'', ''a''] ?s1) = []"
    using two[rule_format, of "[''c'', ''a'']"] c0 by simp
  have d: "map_of (workspacePool (detach_all ''ws'' [''c'', ''a'', ''b''] ?s1)) ''ws'' = None
        \<and> cleaned (detach_all ''ws'' [''c'', ''a'', ''b''] ?s1) = [0]"
    using three[rule_format, of "[''c'', ''a'', ''b'']"] c0 by simp
  show ?thesis using h1 h2 h3 a b c d by (intro conjI) simp_all
qed

text \<open>
  Claim C2 asks that \<open>K\<close> attaches to one workspace id construct exactly one shared
  client and that detaching \<open>K - 1\<close> of the sessions keeps the pool entry alive. Two
  attaches that overlap break both. Each request finds no entry and constructs a wrapper;
  the entry written for session \<open>a\<close> (wrapper 0, one reference after \<open>a\<close> is added) is
  overwritten by the entry written for session \<open>b\<close> (wrapper 1, no reference). In the
  end two wrappers were constructed and two sessions are attached, but the entry counts one
  reference and knows session \<open>b\<close> only, so detaching \<open>b\<close>, one of the two sessions,
  removes the entry and cleans up its wrapper. The same two attaches one after the other
  construct one wrapper and count two references.
\<close>

theorem overlapping_attaches_break_refcounting:
  "constructed (overlapping_attaches (\<lambda>h. True) ''ws'' ''a'' ''b'' server_init) = 2
   \<and> workspacePool (overlapping_attaches (\<lambda>h. True) ''ws'' ''a'' ''b'' server_init)
       = [(''ws'', \<lparr>pe_client = 1, refCount = 1, clients = {''b''}\<rparr>)]
   \<and> workspacePool (removeClientFromWorkspace ''b'' ''ws''
        (overlapping_attaches (\<lambda>h. True) ''ws'' ''a'' ''b'' server_init)) = []
   \<and> cleaned (removeClientFromWorkspace ''b'' ''ws''
        (overlapping_attaches (\<lambda>h. True) ''ws'' ''a'' ''b'' server_init)) = [1]
   \<and> constructed (attach_all (\<lambda>h. True) ''ws'' [''a'', ''b''] server_init) = 1
   \<and> workspacePool (attach_all (\<lambda>h. True) ''ws'' [''a'', ''b''] server_init)
       = [(''ws'', \<lparr>pe_client = 0, refCount = 2, clients = {''b'', ''a''}\<rparr>)]"
  by (simp add: overlapping_attaches_def attach_resume_def getOrCreate_lookup_def
      getOrCreate_resume_def addClientToWorkspace_def removeClientFromWorkspace_def
      attach_all_def attach_def getOrCreateWorkspaceConnection_def server_init_def
      js_map_delete_def Let_def)

text \<open>
  The route \<open>/api/connect/:instanceId/:workspaceId\<close> constructs a wrapper for every
  attach, also when the workspace is pooled already; the pool keeps the first.
\<close>

lemma connect_workspace_route_constructs_each_time:
  "constructed (connect_workspace_route (\<lambda>h. True) ''ws'' ''b''
      (connect_workspace_route (\<lambda>h. True) ''ws'' ''a'' server_init)) = 2
   \<and> workspacePool (connect_workspace_route (\<lambda>h. True) ''ws'' ''b''
        (connect_workspace_route (\<lambda>h. True) ''ws'' ''a'' server_init))
       = [(''ws'', \<lparr>pe_client = 0, refCount = 2, clients = {''b'', ''a''}\<rparr>)]"
  by (simp add: connect_workspace_route_def addClientToWorkspace_def server_init_def Let_def)

section \<open>The grace period after a disconnect\<close>

lemma grace_expiry_keeps_pool:
  assumes "clientConnections s socketId = Some clientData"
  shows "grace_expires socketId s = s\<lparr>clientConnections := (clientConnections s)(socketId := None)\<rparr>"
  using assms by (simp add: grace_expires_def on_disconnect_def split: option.splits)

text \<open>
  Claim C3 asks that a session which has not reconnected when its grace timers expire
  loses both its registry entry and its workspace attachment. The session \<open>s1\<close> below is
  the only one attached to workspace \<open>ws\<close>. It disconnects and nothing else happens for 30
  seconds. The first timer finds the registry entry still there and so skips
  \<open>removeClientFromWorkspace\<close>; the second timer deletes the entry. The pool entry keeps
  its reference count of 1 and the session in its client set, and no \<open>cleanup()\<close> runs,
  whereas \<open>removeClientFromWorkspace\<close> would have emptied the pool.
\<close>

theorem grace_expiry_leaks_attachment:
  "(let s = \<lparr>workspacePool = [(''ws'', \<lparr>pe_client = 0, refCount = 1, clients = {''s1''}\<rparr>)],
             clientConnections = [''s1'' \<mapsto> \<lparr>workspaceId = Some ''ws''\<rparr>],
             constructed = 1, cleaned = []\<rparr>
    in on_disconnect ''s1'' s = [Cleanup_abandoned ''s1'' ''ws'', Remove_stale ''s1'']
     \<and> clientConnections (grace_expires ''s1'' s) ''s1'' = None
     \<and> workspacePool (grace_expires ''s1'' s)
           = [(''ws'', \<lparr>pe_client = 0, refCount = 1, clients = {''s1''}\<rparr>)]
     \<and> cleaned (grace_expires ''s1'' s) = []
     \<and> workspacePool (removeClientFromWorkspace ''s1'' ''ws'' s) = [])"
  by (simp add: Let_def grace_expires_def on_disconnect_def removeClientFromWorkspace_def
      js_map_delete_def)

section \<open>The route \<open>GET /api/cues\<close> never restores a session\<close>

lemma restore_scan_none: "restore_scan pool = None"
  by (induction pool) (auto simp: refs_def js_gt_def)

text \<open>
  Claim C10. A request to \<open>GET /api/cues\<close> from a client that has no workspace attachment
  (no registry entry, or one whose \<open>workspaceId\<close> is falsy) is answered with
  \<open>{cues: []}\<close> and changes nothing: the client is attached to no workspace afterwards,
  whatever the pool holds, because the restoration branch tests the property \<open>refs\<close>,
  which no pool entry has.
\<close>

theorem api_cues_never_restores:
  assumes "\<forall>clientData. clientConnections s clientId = Some clientData
             \<longrightarrow> \<not> truthy (workspaceId clientData)"
  shows "api_cues getAllCues clientId s = (s, [])"
  using assms by (auto simp: api_cues_def restore_scan_none split: option.splits)

theorem api_cues_never_restores_witness:
  "(let s = \<lparr>workspacePool = [(''ws'', \<lparr>pe_client = 0, refCount = 2, clients = {''a'', ''b''}\<rparr>)],
             clientConnections = [''a'' \<mapsto> \<lparr>workspaceId = Some ''ws''\<rparr>,
                                  ''b'' \<mapsto> \<lparr>workspaceId = Some ''ws''\<rparr>],
             constructed = 1, cleaned = []\<rparr>
    in clientConnections s ''x'' = None
     \<and> api_cues (\<lambda>h. Some [''cue 1'', ''cue 2'']) ''x'' s = (s, [])
     \<and> api_cues (\<lambda>h. Some [''cue 1'', ''cue 2'']) ''a'' s = (s, [''cue 1'', ''cue 2'']))"
proof -
  let ?s = "\<lparr>workspacePool = [(''ws'', \<lparr>pe_client = 0, refCount = 2, clients = {''a'', ''b''}\<rparr>)],
             clientConnections = [''a'' \<mapsto> \<lparr>workspaceId = Some ''ws''\<rparr>,
                                  ''b'' \<mapsto> \<lparr>workspaceId = Some ''ws''\<rparr>],
             constructed = 1, cleaned = []\<rparr>"
  have h: "\<forall>clientData. clientConnections ?s ''x'' = Some clientData
             \<longrightarrow> \<not> truthy (workspaceId clientData)" by simp
  have "api_cues (\<lambda>h. Some [''cue 1'', ''cue 2'']) ''a'' ?s = (?s, [''cue 1'', ''cue 2''])"
    by (simp add: api_cues_def truthy_def serve_cues_def)
  then show ?thesis
    using api_cues_never_restores[OF h, of "\<lambda>h. Some [''cue 1'', ''cue 2'']"]
    by (simp add: Let_def)
qed

section \<open>Properties of the protocol client\<close>

subsection \<open>\<open>setActiveWorkspace\<close>\<close>

text \<open>
  Claim C6 says that \<open>setActiveWorkspace\<close> makes three round-trips and returns true only
  if all three succeed, and that a failed call does not leave the client's active workspace
  changed to the new id. Two runs show otherwise. A client on workspace \<open>old\<close> is told to
  switch to \<open>new\<close> while QLab rejects every request: the call returns false, and the
  client's \<open>currentWorkspaceId\<close> is \<open>new\<close>, so its next \<open>go\<close> is addressed to
  \<open>/workspace/new/go\<close>. And when QLab answers the connect message and the cue-list request
  but rejects \<open>/updates\<close>, the call returns true: the \<open>/updates\<close> message is sent without
  waiting for its reply.
\<close>

theorem setActiveWorkspace_counterexample:
  "snd (setActiveWorkspace (new_QLabOSCClient\<lparr>currentWorkspaceId := Some ''old''\<rparr>) ''new''
          (\<lambda>_. Rejects)) = False
   \<and> currentWorkspaceId (fst (setActiveWorkspace
          (new_QLabOSCClient\<lparr>currentWorkspaceId := Some ''old''\<rparr>) ''new'' (\<lambda>_. Rejects)))
       = Some ''new''
   \<and> workspace_address (fst (setActiveWorkspace
          (new_QLabOSCClient\<lparr>currentWorkspaceId := Some ''old''\<rparr>) ''new'' (\<lambda>_. Rejects))) ''/go''
       = ''/workspace/new/go''
   \<and> snd (setActiveWorkspace new_QLabOSCClient ''new''
          (\<lambda>addr. if addr = ''/updates'' then Rejects else Replies (P_array []))) = True"
  by (simp add: setActiveWorkspace_def sendOSCMessage_def Let_def new_QLabOSCClient_def
      workspace_address_def)

text \<open>
  Claim C6 as amended. For a non-empty workspace id, \<open>setActiveWorkspace\<close> sends the
  connect message, then \<open>/updates\<close>, then the cue-list request, in this order, and returns
  true exactly when the connect message and the cue-list request are answered and the
  \<open>/updates\<close> message is written. A step that fails ends the call with false and the
  later messages are not sent. Whether the call succeeds or fails, \<open>currentWorkspaceId\<close> is
  the new id afterwards: it is stored before the first message.
\<close>

theorem setActiveWorkspace_outcome:
  assumes "wid \<noteq> []"
  shows "let connect = ''/workspace/'' @ wid @ ''/connect'';
             cueLists = ''/workspace/'' @ wid @ ''/cueLists'';
             r = setActiveWorkspace c wid net
         in (snd r \<longleftrightarrow> replied (net connect) \<and> net ''/updates'' \<noteq> Send_throws \<and> replied (net cueLists))
          \<and> (snd r \<longrightarrow> outbox (fst r) = outbox c @ [connect, ''/updates'', cueLists])
          \<and> (\<not> replied (net connect) \<longrightarrow>
                outbox (fst r) = outbox c @ (if net connect = Send_throws then [] else [connect]))
          \<and> (replied (net connect) \<and> net ''/updates'' = Send_throws \<longrightarrow>
                outbox (fst r) = outbox c @ [connect])
          \<and> currentWorkspaceId (fst r) = Some wid"
  using assms
  by (auto simp: setActiveWorkspace_def sendOSCMessage_def Let_def replied_def
      split: response.splits)

theorem setActiveWorkspace_outcome_witness:
  "''ws1'' \<noteq> []
   \<and> snd (setActiveWorkspace new_QLabOSCClient ''ws1'' (\<lambda>_. Replies (P_array [])))
   \<and> outbox (fst (setActiveWorkspace new_QLabOSCClient ''ws1'' (\<lambda>_. Replies (P_array []))))
       = [''/workspace/ws1/connect'', ''/updates'', ''/workspace/ws1/cueLists'']
   \<and> currentWorkspaceId (fst (setActiveWorkspace new_QLabOSCClient ''ws1''
         (\<lambda>_. Replies (P_array [])))) = Some ''ws1''"
proof -
  have h: "''ws1'' \<noteq> []" by simp
  note T = setActiveWorkspace_outcome[OF h, of new_QLabOSCClient "\<lambda>_. Replies (P_array [])",
      unfolded Let_def]
  have r: "snd (setActiveWorkspace new_QLabOSCClient ''ws1'' (\<lambda>_. Replies (P_array [])))"
    using T by (simp add: replied_def)
  have o: "outbox (fst (setActiveWorkspace new_QLabOSCClient ''ws1'' (\<lambda>_. Replies (P_array []))))
       = [''/workspace/ws1/connect'', ''/updates'', ''/workspace/ws1/cueLists'']"
    using T r by (simp add: new_QLabOSCClient_def)
  show ?thesis using h r o T by simp
qed

subsection \<open>\<open>getNextCue\<close>\<close>

lemma findIndex_absent: "i \<notin> f ` set xs \<Longrightarrow> findIndex (\<lambda>x. f x = i) xs = None"
  by (induction xs) auto

lemma findIndex_first:
  "i \<notin> f ` set front \<Longrightarrow> f q = i \<Longrightarrow>
     findIndex (\<lambda>x. f x = i) (front @ q # back) = Some (length front)"
  by (induction front) auto

lemma getSelectedCue_catch_workspace:
  "currentWorkspaceId (fst (getSelectedCue_catch c t)) = currentWorkspaceId c"
  "nextCueCache (fst (getSelectedCue_catch c t)) = nextCueCache c"
  "lastNextUpdate (fst (getSelectedCue_catch c t)) = lastNextUpdate c"
  by (simp_all add: getSelectedCue_catch_def split: option.splits)

lemma sendOSCMessage_fields:
  "currentWorkspaceId (fst (sendOSCMessage c a e net)) = currentWorkspaceId c"
  "nextCueCache (fst (sendOSCMessage c a e net)) = nextCueCache c"
  "lastNextUpdate (fst (sendOSCMessage c a e net)) = lastNextUpdate c"
  by (simp_all add: sendOSCMessage_def split: response.splits)

lemma getSelectedCue_workspace:
  "currentWorkspaceId (fst (getSelectedCue c now now_err net)) = currentWorkspaceId c"
proof -
  obtain c1 r where s: "sendOSCMessage c (workspace_address c ''/cue/selected/valuesForKeys'') True net = (c1, r)"
    by (cases "sendOSCMessage c (workspace_address c ''/cue/selected/valuesForKeys'') True net")
  have c1: "currentWorkspaceId c1 = currentWorkspaceId c"
    using sendOSCMessage_fields(1)[of c "workspace_address c ''/cue/selected/valuesForKeys''" True net] s
    by simp
  show ?thesis
    using c1 getSelectedCue_catch_workspace(1)[of c1 now_err]
    by (auto simp: getSelectedCue_def s Let_def split: option.splits payload.splits list.splits if_splits)
qed

lemma workspace_address_cong:
  "currentWorkspaceId c1 = currentWorkspaceId c \<Longrightarrow> workspace_address c1 a = workspace_address c a"
  by (simp add: workspace_address_def)

lemma next_in_lists_none:
  assumes "cues mainCueList = Some cs"
    and "i \<notin> uniqueID ` set cs
           \<or> (\<exists>front l. cs = front @ [l] \<and> uniqueID l = i \<and> i \<notin> uniqueID ` set front)"
  shows "next_in_lists (P_array (mainCueList # others)) i = None"
proof -
  from assms(2) consider "i \<notin> uniqueID ` set cs"
    | front l where "cs = front @ [l]" "uniqueID l = i" "i \<notin> uniqueID ` set front"
    by blast
  then show ?thesis
  proof cases
    case 1
    then show ?thesis using assms(1) by (simp add: next_in_lists_def findIndex_absent)
  next
    case 2
    have "findIndex (\<lambda>x. uniqueID x = i) (front @ [l]) = Some (length front)"
      using findIndex_first[of i uniqueID front l "[]"] 2 by simp
    then show ?thesis using assms(1) 2(1) by (simp add: next_in_lists_def)
  qed
qed

lemma next_in_lists_some:
  assumes "cues mainCueList = Some (front @ q # nxt # rest)"
    and "uniqueID q = i" and "i \<notin> uniqueID ` set front"
  shows "next_in_lists (P_array (mainCueList # others)) i = Some nxt"
proof -
  have "findIndex (\<lambda>x. uniqueID x = i) (front @ q # nxt # rest) = Some (length front)"
    using findIndex_first[of i uniqueID front q "nxt # rest"] assms(2,3) by simp
  then show ?thesis using assms(1) by (simp add: next_in_lists_def nth_append)
qed

lemma getNextCue_nothing_selected:
  assumes miss: "nextCueCache c = None \<or> cacheTimeout c \<le> now - lastNextUpdate c"
    and sel: "getSelectedCue c now_sel now_err net = (c1, selectedCue)"
    and none: "cue_id selectedCue = None \<or> cue_id selectedCue = Some []"
  shows "snd (getNextCue c now now_sel now_err net) = no_selection"
proof -
  have nocache: "(if now - lastNextUpdate c < cacheTimeout c then nextCueCache c else None) = None"
    using miss by (cases "now - lastNextUpdate c < cacheTimeout c") simp_all
  show ?thesis
    unfolding getNextCue_def nocache sel using none by (auto simp: Let_def)
qed

lemma getNextCue_selected:
  assumes miss: "nextCueCache c = None \<or> cacheTimeout c \<le> now - lastNextUpdate c"
    and sel: "getSelectedCue c now_sel now_err net = (c1, selectedCue)"
    and lists: "net (workspace_address c ''/cueLists'') = Replies cueLists"
    and some: "cue_id selectedCue = Some i" "i \<noteq> []"
  shows "snd (getNextCue c now now_sel now_err net) =
          (case next_in_lists cueLists i of Some nextCue \<Rightarrow> next_of nextCue | None \<Rightarrow> end_of_list)"
proof -
  have nocache: "(if now - lastNextUpdate c < cacheTimeout c then nextCueCache c else None) = None"
    using miss by (cases "now - lastNextUpdate c < cacheTimeout c") simp_all
  have ws: "workspace_address c1 ''/cueLists'' = workspace_address c ''/cueLists''"
    using getSelectedCue_workspace[of c now_sel now_err net] sel
      workspace_address_cong[of c1 c "''/cueLists''"] by simp
  have send: "sendOSCMessage c1 (workspace_address c1 ''/cueLists'') True net
                = (c1\<lparr>outbox := outbox c1 @ [workspace_address c ''/cueLists'']\<rparr>, Some cueLists)"
    unfolding ws using lists by (simp add: sendOSCMessage_def)
  show ?thesis
    unfolding getNextCue_def nocache sel using some
    by (simp add: Let_def send split: option.splits)
qed

lemma all_ids_self: "uniqueID q \<in> set (all_ids q)"
  by (cases q) simp

lemma all_ids_member:
  assumes "cues q = Some cs" and "x \<in> set cs"
  shows "uniqueID x \<in> set (all_ids q)"
proof -
  obtain u n nm l d t where q: "q = QCue u n nm l d t (Some cs)" using assms(1) by (cases q) auto
  have "uniqueID x \<in> set (concat (map all_ids cs))"
    using assms(2) all_ids_self[of x] by auto
  then show ?thesis by (simp add: q)
qed

lemma next_in_lists_absent:
  assumes "i \<notin> set (payload_ids cueLists)"
  shows "next_in_lists cueLists i = None"
proof (cases cueLists)
  case (P_array qs)
  show ?thesis
  proof (cases qs)
    case Nil
    then show ?thesis using P_array by (simp add: next_in_lists_def)
  next
    case (Cons mainCueList others)
    show ?thesis
    proof (cases "cues mainCueList")
      case None
      then show ?thesis using P_array Cons by (simp add: next_in_lists_def)
    next
      case (Some cs)
      have "i \<notin> uniqueID ` set cs"
      proof
        assume "i \<in> uniqueID ` set cs"
        then obtain x where "x \<in> set cs" "uniqueID x = i" by auto
        then have "i \<in> set (all_ids mainCueList)" using all_ids_member[OF Some] by auto
        then show False using assms P_array Cons by (simp add: payload_ids_def)
      qed
      then show ?thesis using next_in_lists_none[OF Some, of i others] P_array Cons by simp
    qed
  qed
qed (simp_all add: next_in_lists_def)

text \<open>
  Claim C7 says that \<open>getNextCue\<close> locates the selected cue in the full cue list and
  returns the entry after it, and returns the placeholder \<open>End of list\<close> when the selected
  cue is last, is absent, or nothing is selected. Five runs show otherwise. With no cue
  selected the result is the placeholder named \<open>No selection\<close>. With cue C selected, which
  has the successor D (named \<open>Rain\<close>) in its group, and likewise in a second cue list, the
  result is \<open>End of list\<close>. With the last cue B selected and a next cue cached half a
  second ago the result is the cached cue. With B selected and the cue-list query rejected
  the result is the placeholder \<open>No next cue\<close>.
\<close>

theorem getNextCue_counterexample:
  "cue_name (snd (getNextCue new_QLabOSCClient 5000 5000 5000 (qlab_with (P_array []))))
        = ''No selection''
   \<and> cue_name (snd (getNextCue new_QLabOSCClient 5000 5000 5000
         (qlab_lists (P_object cue_C) (Replies (P_array [grouped_list]))))) = ''End of list''
   \<and> cue_name (snd (getNextCue new_QLabOSCClient 5000 5000 5000
         (qlab_lists (P_object cue_C) (Replies (P_array [main_list, second_list])))))
        = ''End of list''
   \<and> cue_name (next_of cue_D) = ''Rain''
   \<and> cue_name (snd (getNextCue cached_client 1500 1500 1500 (qlab_with (P_object cue_B))))
        = ''Finale''
   \<and> cue_name (snd (getNextCue new_QLabOSCClient 5000 5000 5000
         (qlab_lists (P_object cue_B) Rejects))) = ''No next cue''
   \<and> cue_name end_of_list = ''End of list''"
  by (simp add: getNextCue_def getSelectedCue_def sendOSCMessage_def workspace_address_def
      new_QLabOSCClient_def cached_client_def qlab_with_def qlab_lists_def no_selection_def
      end_of_list_def no_next_cue_def next_of_def selected_of_def next_in_lists_def
      main_list_def second_list_def grouped_list_def group_G_def cue_A_def cue_B_def cue_C_def
      cue_D_def js_or_def js_truthy_def Let_def)

text \<open>
  Claim C7 as amended. When \<open>getNextCue\<close> has no fresh cached value and QLab answers the
  cue-list query: if nothing is selected (the selected cue has no id or an empty one) the
  result is the \<open>No selection\<close> placeholder; if the selected cue is one of the cues of the
  first cue list and has a successor there, the result is that successor, normalised; if it
  is the last of them, or its id occurs nowhere in the reply, the result is the
  \<open>End of list\<close> placeholder. Nothing is said of a selected cue inside a group or in
  another cue list.
\<close>

theorem getNextCue_live:
  assumes miss: "nextCueCache c = None \<or> cacheTimeout c \<le> now - lastNextUpdate c"
    and sel: "getSelectedCue c now_sel now_err net = (c1, selectedCue)"
    and lists: "net (workspace_address c ''/cueLists'') = Replies cueLists"
  shows "(cue_id selectedCue = None \<or> cue_id selectedCue = Some [] \<longrightarrow>
            snd (getNextCue c now now_sel now_err net) = no_selection)
       \<and> (\<forall>i mainCueList others front q nxt rest.
            cue_id selectedCue = Some i \<and> i \<noteq> [] \<and> cueLists = P_array (mainCueList # others)
            \<and> cues mainCueList = Some (front @ q # nxt # rest)
            \<and> uniqueID q = i \<and> i \<notin> uniqueID ` set front
            \<longrightarrow> snd (getNextCue c now now_sel now_err net) = next_of nxt)
       \<and> (\<forall>i mainCueList others front l.
            cue_id selectedCue = Some i \<and> i \<noteq> [] \<and> cueLists = P_array (mainCueList # others)
            \<and> cues mainCueList = Some (front @ [l])
            \<and> uniqueID l = i \<and> i \<notin> uniqueID ` set front
            \<longrightarrow> snd (getNextCue c now now_sel now_err net) = end_of_list)
       \<and> (\<forall>i. cue_id selectedCue = Some i \<and> i \<noteq> [] \<and> i \<notin> set (payload_ids cueLists)
            \<longrightarrow> snd (getNextCue c now now_sel now_err net) = end_of_list)"
proof (intro conjI allI impI)
  assume "cue_id selectedCue = None \<or> cue_id selectedCue = Some []"
  then show "snd (getNextCue c now now_sel now_err net) = no_selection"
    using getNextCue_nothing_selected[OF miss sel] by simp
next
  fix i mainCueList others front q nxt rest
  assume h: "cue_id selectedCue = Some i \<and> i \<noteq> [] \<and> cueLists = P_array (mainCueList # others)
            \<and> cues mainCueList = Some (front @ q # nxt # rest)
            \<and> uniqueID q = i \<and> i \<notin> uniqueID ` set front"
  then have "next_in_lists cueLists i = Some nxt"
    using next_in_lists_some[of mainCueList front q nxt rest i others] by simp
  then show "snd (getNextCue c now now_sel now_err net) = next_of nxt"
    using getNextCue_selected[OF miss sel lists, of i] h by simp
next
  fix i mainCueList others front l
  assume h: "cue_id selectedCue = Some i \<and> i \<noteq> [] \<and> cueLists = P_array (mainCueList # others)
            \<and> cues mainCueList = Some (front @ [l])
            \<and> uniqueID l = i \<and> i \<notin> uniqueID ` set front"
  then have "\<exists>front' l'. front @ [l] = front' @ [l'] \<and> uniqueID l' = i \<and> i \<notin> uniqueID ` set front'"
    by blast
  then have "next_in_lists (P_array (mainCueList # others)) i = None"
    using next_in_lists_none[of mainCueList "front @ [l]" i others] h by simp
  then have "next_in_lists cueLists i = None" using h by simp
  then show "snd (getNextCue c now now_sel now_err net) = end_of_list"
    using getNextCue_selected[OF miss sel lists, of i] h by simp
next
  fix i
  assume h: "cue_id selectedCue = Some i \<and> i \<noteq> [] \<and> i \<notin> set (payload_ids cueLists)"
  then have "next_in_lists cueLists i = None" using next_in_lists_absent by simp
  then show "snd (getNextCue c now now_sel now_err net) = end_of_list"
    using getNextCue_selected[OF miss sel lists, of i] h by simp
qed

lemma sel_B:
  "getSelectedCue new_QLabOSCClient 5000 5000 (qlab_with (P_object cue_B)) =
     (new_QLabOSCClient\<lparr>outbox := [''/cue/selected/valuesForKeys''],
         selectedCueCache := Some (selected_of cue_B), lastSelectedUpdate := 5000\<rparr>,
      selected_of cue_B)"
  by (simp add: getSelectedCue_def sendOSCMessage_def workspace_address_def
      new_QLabOSCClient_def qlab_with_def Let_def cue_B_def js_truthy_def)

theorem getNextCue_live_witness:
  "(nextCueCache new_QLabOSCClient = None
      \<or> cacheTimeout new_QLabOSCClient \<le> 5000 - lastNextUpdate new_QLabOSCClient)
   \<and> cue_id (snd (getSelectedCue new_QLabOSCClient 5000 5000 (qlab_with (P_object cue_B)))) = Some ''B''
   \<and> qlab_with (P_object cue_B) (workspace_address new_QLabOSCClient ''/cueLists'')
        = Replies (P_array [main_list])
   \<and> cues main_list = Some ([cue_A] @ [cue_B]) \<and> uniqueID cue_B = ''B''
   \<and> ''B'' \<notin> uniqueID ` set [cue_A]
   \<and> snd (getNextCue new_QLabOSCClient 5000 5000 5000 (qlab_with (P_object cue_B))) = end_of_list"
proof -
  let ?net = "qlab_with (P_object cue_B)"
  have miss: "nextCueCache new_QLabOSCClient = None
      \<or> cacheTimeout new_QLabOSCClient \<le> 5000 - lastNextUpdate new_QLabOSCClient"
    by (simp add: new_QLabOSCClient_def)
  have lists: "?net (workspace_address new_QLabOSCClient ''/cueLists'') = Replies (P_array [main_list])"
    by (simp add: qlab_with_def workspace_address_def new_QLabOSCClient_def)
  have id: "cue_id (selected_of cue_B) = Some ''B''" by (simp add: selected_of_def cue_B_def)
  have cs: "cues main_list = Some ([cue_A] @ [cue_B])" by (simp add: main_list_def)
  have u: "uniqueID cue_B = ''B''" "''B'' \<notin> uniqueID ` set [cue_A]"
    by (simp_all add: cue_A_def cue_B_def)
  note T = getNextCue_live[OF miss sel_B lists]
  have "snd (getNextCue new_QLabOSCClient 5000 5000 5000 ?net) = end_of_list"
    using T[THEN conjunct2, THEN conjunct2, THEN conjunct1, rule_format,
        of "''B''" main_list "[]" "[cue_A]" cue_B]
      id cs u by blast
  then show ?thesis using miss lists id cs u by (simp add: sel_B)
qed

section \<open>Properties of the wrapper\<close>

subsection \<open>Debounced cue selection\<close>

lemma skipToCue_sends:
  assumes "\<not> (lastSelectedCueId w = Some cueId \<and> now - lastSelectionTime w < 500)"
    and "net (select_address (client w) cueId) \<noteq> Send_throws"
  shows "skipToCue w cueId now net =
           (w\<lparr>client := (client w)\<lparr>outbox := outbox (client w) @ [select_address (client w) cueId]\<rparr>,
              lastSelectedCueId := Some cueId, lastSelectionTime := now\<rparr>, True)"
  using assms by (auto simp: skipToCue_def sendOSCMessage_def split: response.splits)

lemma select_address_outbox:
  "select_address (c\<lparr>outbox := ob\<rparr>) cueId = select_address c cueId"
  by (simp add: select_address_def workspace_address_def)

lemma skipToCue_after_send:
  assumes first_goes_out: "\<not> (lastSelectedCueId w = Some cueId \<and> t1 - lastSelectionTime w < 500)"
    and accepted: "net1 (select_address (client w) cueId) \<noteq> Send_throws"
  shows "let w1 = fst (skipToCue w cueId t1 net1)
         in snd (skipToCue w cueId t1 net1)
          \<and> outbox (client w1) = outbox (client w) @ [select_address (client w) cueId]
          \<and> (\<forall>t2 net2. t2 - t1 < 500 \<longrightarrow> skipToCue w1 cueId t2 net2 = (w1, True))
          \<and> (\<forall>t2 net2. 500 \<le> t2 - t1 \<and> net2 (select_address (client w) cueId) \<noteq> Send_throws \<longrightarrow>
                snd (skipToCue w1 cueId t2 net2)
                \<and> outbox (client (fst (skipToCue w1 cueId t2 net2)))
                     = outbox (client w1) @ [select_address (client w) cueId])
          \<and> (\<forall>other t2 net2. other \<noteq> cueId \<and> net2 (select_address (client w) other) \<noteq> Send_throws \<longrightarrow>
                snd (skipToCue w1 other t2 net2)
                \<and> outbox (client (fst (skipToCue w1 other t2 net2)))
                     = outbox (client w1) @ [select_address (client w) other])"
proof -
  let ?a = "select_address (client w) cueId"
  let ?w1 = "w\<lparr>client := (client w)\<lparr>outbox := outbox (client w) @ [?a]\<rparr>,
              lastSelectedCueId := Some cueId, lastSelectionTime := t1\<rparr>"
  have first: "skipToCue w cueId t1 net1 = (?w1, True)"
    using skipToCue_sends[of w cueId t1 net1] first_goes_out accepted by simp
  have again: "skipToCue ?w1 cueId t2 net2 = (?w1, True)" if "t2 - t1 < 500" for t2 net2
    using that by (simp add: skipToCue_def)
  have later: "snd (skipToCue ?w1 cueId t2 net2)
                \<and> outbox (client (fst (skipToCue ?w1 cueId t2 net2))) = outbox (client ?w1) @ [?a]"
    if "500 \<le> t2 - t1" "net2 ?a \<noteq> Send_throws" for t2 net2
  proof -
    have 1: "\<not> (lastSelectedCueId ?w1 = Some cueId \<and> t2 - lastSelectionTime ?w1 < 500)"
      using that(1) by simp
    have 2: "net2 (select_address (client ?w1) cueId) \<noteq> Send_throws"
      using that(2) by (simp add: select_address_outbox)
    show ?thesis using skipToCue_sends[of ?w1 cueId t2 net2] 1 2
      by (simp add: select_address_outbox)
  qed
  have other: "snd (skipToCue ?w1 other t2 net2)
                \<and> outbox (client (fst (skipToCue ?w1 other t2 net2)))
                     = outbox (client ?w1) @ [select_address (client w) other]"
    if "other \<noteq> cueId" "net2 (select_address (client w) other) \<noteq> Send_throws" for other t2 net2
  proof -
    have 1: "\<not> (lastSelectedCueId ?w1 = Some other \<and> t2 - lastSelectionTime ?w1 < 500)"
      using that(1) by simp
    have 2: "net2 (select_address (client ?w1) other) \<noteq> Send_throws"
      using that(2) by (simp add: select_address_outbox)
    show ?thesis using skipToCue_sends[of ?w1 other t2 net2] 1 2
      by (simp add: select_address_outbox)
  qed
  show ?thesis
    unfolding Let_def first fst_conv snd_conv
    using again later other by (intro conjI allI impI) auto
qed

lemma skipToCue_sent:
  assumes "outbox (client (fst (skipToCue w cueId t1 net1)))
             = outbox (client w) @ [select_address (client w) cueId]"
  shows "\<not> (lastSelectedCueId w = Some cueId \<and> t1 - lastSelectionTime w < 500)"
    and "net1 (select_address (client w) cueId) \<noteq> Send_throws"
  using assms by (auto simp: skipToCue_def sendOSCMessage_def split: if_splits)

lemma skipToCue_not_suppressed:
  assumes "\<not> (lastSelectedCueId w = Some cueId \<and> now - lastSelectionTime w < 500)"
  shows "client (fst (skipToCue w cueId now net))
           = fst (sendOSCMessage (client w) (select_address (client w) cueId) False net)"
  using assms by (auto simp: skipToCue_def sendOSCMessage_def split: response.splits)

text \<open>
  Claim C8 says that of two \<open>skipToCue\<close> calls with the same cue id less than 500 ms
  apart the second sends nothing. A wrapper sends the selection of cue 42 at time 1000. The
  call at 1400 is suppressed. The call at 1600, 200 ms after that call and with the same
  cue id, sends the selection again: the 500 ms are counted from the last selection that
  was sent, not from the last call.
\<close>

theorem selection_debounce_counterexample:
  "snd (skipToCue (fst (skipToCue new_QLabClientWrapper ''42'' 1000 (\<lambda>_. Rejects)))
      ''42'' 1400 (\<lambda>_. Rejects))
   \<and> outbox (client (fst (skipToCue (fst (skipToCue new_QLabClientWrapper ''42'' 1000 (\<lambda>_. Rejects)))
      ''42'' 1400 (\<lambda>_. Rejects)))) = [''/select_id/42'']
   \<and> snd (skipToCue (fst (skipToCue (fst (skipToCue new_QLabClientWrapper
      ''42'' 1000 (\<lambda>_. Rejects))) ''42'' 1400 (\<lambda>_. Rejects))) ''42'' 1600 (\<lambda>_. Rejects))
   \<and> outbox (client (fst (skipToCue (fst (skipToCue (fst (skipToCue new_QLabClientWrapper
      ''42'' 1000 (\<lambda>_. Rejects))) ''42'' 1400 (\<lambda>_. Rejects))) ''42'' 1600 (\<lambda>_. Rejects))))
        = [''/select_id/42'', ''/select_id/42'']"
  by (simp add: skipToCue_def sendOSCMessage_def select_address_def workspace_address_def
      new_QLabClientWrapper_def new_QLabOSCClient_def)

text \<open>
  Claim C8 as amended. Let a call \<open>skipToCue(cueId)\<close> at time \<open>t1\<close> send its message.
  Then it returns true. A second call with the same \<open>cueId\<close> less than 500 ms after it
  returns true and changes nothing, so it sends nothing: the two calls make exactly one
  outbound send. A call with the same \<open>cueId\<close> 500 ms or more after the first, or a call
  with another cue id at any time, is not suppressed: it hands its message to the port, and
  when the port accepts it the message is sent and the call returns true.
\<close>

theorem selection_debounce:
  assumes sent: "outbox (client (fst (skipToCue w cueId t1 net1)))
                   = outbox (client w) @ [select_address (client w) cueId]"
  shows "let w1 = fst (skipToCue w cueId t1 net1)
         in snd (skipToCue w cueId t1 net1)
          \<and> (\<forall>t2 net2. t2 - t1 < 500 \<longrightarrow> skipToCue w1 cueId t2 net2 = (w1, True))
          \<and> (\<forall>t2 net2. 500 \<le> t2 - t1 \<longrightarrow>
                client (fst (skipToCue w1 cueId t2 net2))
                  = fst (sendOSCMessage (client w1) (select_address (client w) cueId) False net2))
          \<and> (\<forall>t2 net2. 500 \<le> t2 - t1 \<and> net2 (select_address (client w) cueId) \<noteq> Send_throws \<longrightarrow>
                snd (skipToCue w1 cueId t2 net2)
                \<and> outbox (client (fst (skipToCue w1 cueId t2 net2)))
                     = outbox (client w1) @ [select_address (client w) cueId])
          \<and> (\<forall>other t2 net2. other \<noteq> cueId \<longrightarrow>
                client (fst (skipToCue w1 other t2 net2))
                  = fst (sendOSCMessage (client w1) (select_address (client w) other) False net2))
          \<and> (\<forall>other t2 net2. other \<noteq> cueId \<and> net2 (select_address (client w) other) \<noteq> Send_throws \<longrightarrow>
                snd (skipToCue w1 other t2 net2)
                \<and> outbox (client (fst (skipToCue w1 other t2 net2)))
                     = outbox (client w1) @ [select_address (client w) other])"
proof -
  note h = skipToCue_sent[OF sent]
  let ?a = "select_address (client w) cueId"
  let ?w1 = "w\<lparr>client := (client w)\<lparr>outbox := outbox (client w) @ [?a]\<rparr>,
              lastSelectedCueId := Some cueId, lastSelectionTime := t1\<rparr>"
  have first: "skipToCue w cueId t1 net1 = (?w1, True)"
    using skipToCue_sends[of w cueId t1 net1] h by simp
  note old = skipToCue_after_send[of w cueId t1 net1, unfolded Let_def first fst_conv snd_conv, OF h]
  have later: "client (fst (skipToCue ?w1 cueId t2 net2))
                  = fst (sendOSCMessage (client ?w1) ?a False net2)"
    if "500 \<le> t2 - t1" for t2 net2
    using skipToCue_not_suppressed[of ?w1 cueId t2 net2] that
    by (simp add: select_address_outbox)
  have other: "client (fst (skipToCue ?w1 other t2 net2))
                  = fst (sendOSCMessage (client ?w1) (select_address (client w) other) False net2)"
    if "other \<noteq> cueId" for other t2 net2
    using skipToCue_not_suppressed[of ?w1 other t2 net2] that
    by (simp add: select_address_outbox)
  show ?thesis
    unfolding Let_def first fst_conv snd_conv
    using old later other by (intro conjI allI impI) auto
qed

theorem selection_debounce_witness:
  "outbox (client (fst (skipToCue new_QLabClientWrapper ''42'' 1000 (\<lambda>_. Rejects))))
     = outbox (client new_QLabClientWrapper) @ [select_address (client new_QLabClientWrapper) ''42'']
   \<and> snd (skipToCue new_QLabClientWrapper ''42'' 1000 (\<lambda>_. Rejects))
   \<and> snd (skipToCue (fst (skipToCue new_QLabClientWrapper ''42'' 1000 (\<lambda>_. Rejects))) ''42'' 1499
            (\<lambda>_. Rejects))
   \<and> outbox (client (fst (skipToCue (fst (skipToCue new_QLabClientWrapper ''42'' 1000 (\<lambda>_. Rejects)))
            ''42'' 1499 (\<lambda>_. Rejects)))) = [''/select_id/42'']
   \<and> outbox (client (fst (skipToCue (fst (skipToCue new_QLabClientWrapper ''42'' 1000 (\<lambda>_. Rejects)))
            ''42'' 1500 (\<lambda>_. Rejects)))) = [''/select_id/42'', ''/select_id/42'']
   \<and> outbox (client (fst (skipToCue (fst (skipToCue new_QLabClientWrapper ''42'' 1000 (\<lambda>_. Rejects)))
            ''43'' 1001 (\<lambda>_. Rejects)))) = [''/select_id/42'', ''/select_id/43'']"
proof -
  let ?w = new_QLabClientWrapper
  let ?net = "(\<lambda>_. Rejects) :: qlab"
  let ?w1 = "fst (skipToCue ?w ''42'' 1000 ?net)"
  have a: "select_address (client ?w) ''42'' = ''/select_id/42''"
    "select_address (client ?w) ''43'' = ''/select_id/43''" "outbox (client ?w) = []"
    by (simp_all add: select_address_def workspace_address_def new_QLabClientWrapper_def
        new_QLabOSCClient_def)
  have h: "outbox (client ?w1) = outbox (client ?w) @ [select_address (client ?w) ''42'']"
    by (simp add: skipToCue_def sendOSCMessage_def select_address_def workspace_address_def
        new_QLabClientWrapper_def new_QLabOSCClient_def)
  note T = selection_debounce[of ?w "''42''" 1000 ?net, unfolded Let_def, OF h]
  have r1: "snd (skipToCue ?w ''42'' 1000 ?net)" using T by blast
  have o1: "outbox (client ?w1) = [''/select_id/42'']" using h a by simp
  have second: "skipToCue ?w1 ''42'' 1499 ?net = (?w1, True)"
    using T[THEN conjunct2, THEN conjunct1, rule_format, of 1499 ?net] by simp
  have third: "outbox (client (fst (skipToCue ?w1 ''42'' 1500 ?net))) = [''/select_id/42'', ''/select_id/42'']"
    using T[THEN conjunct2, THEN conjunct2, THEN conjunct2, THEN conjunct1, rule_format, of 1500 ?net]
      a o1 by simp
  have fourth: "outbox (client (fst (skipToCue ?w1 ''43'' 1001 ?net))) = [''/select_id/42'', ''/select_id/43'']"
    using T[THEN conjunct2, THEN conjunct2, THEN conjunct2, THEN conjunct2, THEN conjunct2,
        rule_format, of "''43''" ?net 1001] a o1 by simp
  show ?thesis using h r1 o1 second third fourth by simp
qed

subsection \<open>Cache invalidation by commands\<close>

lemma invalidating_commands:
  "selectedCueCache (client (fst (play w net))) = None
   \<and> activeCueCache (client (fst (play w net))) = None
   \<and> nextCueCache (client (fst (play w net))) = None"
  "selectedCueCache (client (fst (stop w net))) = None
   \<and> activeCueCache (client (fst (stop w net))) = None
   \<and> nextCueCache (client (fst (stop w net))) = None"
  "selectedCueCache (client (fst (next_cue w net))) = None
   \<and> activeCueCache (client (fst (next_cue w net))) = None
   \<and> nextCueCache (client (fst (next_cue w net))) = None"
  "selectedCueCache (client (fst (previous w net))) = None
   \<and> activeCueCache (client (fst (previous w net))) = None
   \<and> nextCueCache (client (fst (previous w net))) = None"
  by (simp_all add: play_def stop_def next_cue_def previous_def osc_go_def osc_stop_def
      osc_next_def osc_previous_def command_def sendOSCMessage_def invalidateCache_def
      split: response.splits prod.splits)

lemma cache_miss_goes_live:
  assumes "selectedCueCache c = None"
    and "net (workspace_address c ''/cue/selected/valuesForKeys'') \<noteq> Send_throws"
  shows "outbox (fst (getSelectedCue c now now_err net))
           = outbox c @ [workspace_address c ''/cue/selected/valuesForKeys'']"
  using assms
  by (auto simp: getSelectedCue_def getSelectedCue_catch_def sendOSCMessage_def Let_def
      split: response.splits payload.splits list.splits option.splits)

lemma non_invalidating_commands:
  "selectedCueCache (client (fst (panic w net))) = selectedCueCache (client w)
   \<and> lastSelectedUpdate (client (fst (panic w net))) = lastSelectedUpdate (client w)"
  "selectedCueCache (client (fst (reset w net))) = selectedCueCache (client w)
   \<and> lastSelectedUpdate (client (fst (reset w net))) = lastSelectedUpdate (client w)"
  "selectedCueCache (client (fst (skipToCue w cueId now net))) = selectedCueCache (client w)
   \<and> lastSelectedUpdate (client (fst (skipToCue w cueId now net))) = lastSelectedUpdate (client w)"
  by (simp_all add: panic_def reset_def skipToCue_def osc_panic_def osc_reset_def command_def
      sendOSCMessage_def split: response.splits prod.splits)

text \<open>
  Claim C4 asks that every state-changing command invalidates the per-cue caches, so that
  the next \<open>getSelectedCue\<close> is a live query. \<open>play\<close>, \<open>stop\<close>, \<open>next\<close> and
  \<open>previous\<close> do (lemma \<open>invalidating_commands\<close>); \<open>panic\<close>, \<open>reset\<close> and \<open>skipToCue\<close> do
  not call \<open>invalidateCache\<close>. The wrapper below cached cue A as selected at time 1000.
  At 1100 cue B is selected with \<open>skipToCue\<close>, and QLab from then on reports B as
  selected. \<open>getSelectedCue\<close> at 1200 still answers A from the cache and sends no query
  (the only message sent is the selection itself); the same after \<open>panic\<close> and after
  \<open>reset\<close>. After \<open>play\<close> the same read is live and answers B.
\<close>

theorem panic_reset_select_serve_stale_cache:
  "snd (skipToCue cached_wrapper ''B'' 1100 (qlab_with (P_object cue_B)))
   \<and> snd (getSelectedCue (client (fst (skipToCue cached_wrapper ''B'' 1100
             (qlab_with (P_object cue_B))))) 1200 1200 (qlab_with (P_object cue_B)))
       = selected_of cue_A
   \<and> outbox (fst (getSelectedCue (client (fst (skipToCue cached_wrapper ''B'' 1100
             (qlab_with (P_object cue_B))))) 1200 1200 (qlab_with (P_object cue_B))))
       = [''/select_id/B'']
   \<and> snd (getSelectedCue (client (fst (panic cached_wrapper (qlab_with (P_object cue_B)))))
             1200 1200 (qlab_with (P_object cue_B))) = selected_of cue_A
   \<and> snd (getSelectedCue (client (fst (reset cached_wrapper (qlab_with (P_object cue_B)))))
             1200 1200 (qlab_with (P_object cue_B))) = selected_of cue_A
   \<and> snd (getSelectedCue (client (fst (play cached_wrapper (qlab_with (P_object cue_B)))))
             1200 1200 (qlab_with (P_object cue_B))) = selected_of cue_B
   \<and> selected_of cue_A \<noteq> selected_of cue_B"
  by (simp add: skipToCue_def panic_def reset_def play_def osc_panic_def osc_reset_def osc_go_def
      command_def sendOSCMessage_def invalidateCache_def getSelectedCue_def select_address_def
      workspace_address_def cached_wrapper_def cached_client_def new_QLabClientWrapper_def
      new_QLabOSCClient_def qlab_with_def selected_of_def cue_A_def cue_B_def js_or_def
      js_truthy_def Let_def)

subsection \<open>Stale fallback of the cue queries\<close>

lemma getSelectedCue_stale_fallback:
  assumes "selectedCueCache c = Some cached"
    and "cacheTimeout c \<le> now - lastSelectedUpdate c"
    and "net (workspace_address c ''/cue/selected/valuesForKeys'') = Rejects
         \<or> net (workspace_address c ''/cue/selected/valuesForKeys'') = Send_throws"
  shows "snd (getSelectedCue c now now_err net)
           = (if now_err - lastSelectedUpdate c < 10000 then cached else no_selection)"
  using assms
  by (auto simp: getSelectedCue_def getSelectedCue_catch_def sendOSCMessage_def)

text \<open>
  Claim C5 asks that each of \<open>getSelectedCue\<close>, \<open>getActiveCue\<close> and \<open>getNextCue\<close>, when
  its live query fails, returns the cached value if that is younger than 10 seconds.
  \<open>getSelectedCue\<close> does (lemma \<open>getSelectedCue_stale_fallback\<close>). The \<open>catch\<close> block of
  \<open>getActiveCue\<close> never looks at the cache: with an active cue cached 2 seconds ago and a
  QLab that rejects the query at once, \<open>getActiveCue\<close> returns the placeholder \<open>Not available\<close>,
  while \<open>getSelectedCue\<close> in the same state returns its cached cue.
\<close>

theorem getActiveCue_ignores_stale_cache:
  "activeCueCache cached_client = Some (active_of cue_A)
   \<and> 3000 - lastActiveUpdate cached_client < 10000
   \<and> snd (getActiveCue cached_client 3000 (\<lambda>_. Rejects)) = not_available
   \<and> not_available \<noteq> active_of cue_A
   \<and> snd (getSelectedCue cached_client 3000 3000 (\<lambda>_. Rejects)) = selected_of cue_A"
  by (simp add: getActiveCue_def getSelectedCue_def getSelectedCue_catch_def sendOSCMessage_def
      cached_client_def new_QLabOSCClient_def not_available_def active_of_def Let_def)

end
